theory Spec2Isabelle
  imports Main "HOL-Library.Word"
begin

section \<open>Regions of a memory image\<close>

text \<open>
  The file actions of the programmer (\<^verbatim>\<open>src/lib/actions/fileActions.js\<close>) work on an
  Immutable.js \<^verbatim>\<open>List\<close> of \<^verbatim>\<open>Region\<close> records.

  Modelled from the spec: the declarations \<^verbatim>\<open>Region\<close>, \<^verbatim>\<open>RegionName\<close> and
  \<^verbatim>\<open>RegionColor\<close> of \<^verbatim>\<open>lib/util/regions\<close>, which is not among the sources. The spec
  gives a region a name (APPLICATION, SOFTDEVICE, BOOTLOADER or NONE), a start address, a
  size, an opaque colour and the source files touching it; the field names are the ones
  the actions read and write. Addresses and sizes are JavaScript numbers holding integers,
  modelled as \<open>int\<close>: the subtraction \<^verbatim>\<open>appEndAddress - appStartAddress\<close> may go below
  zero and is not truncated. \<open>DeviceInfo\<close> has the three fields the actions read.
\<close>

datatype RegionName = APPLICATION | SOFTDEVICE | BOOTLOADER | NONE

datatype RegionColor = ColorAPPLICATION | ColorSOFTDEVICE | ColorBOOTLOADER | ColorNONE

record Region =
  name :: RegionName
  startAddress :: int
  regionSize :: int
  color :: RegionColor
  fileNames :: "string list"

record DeviceInfo =
  romSize :: int
  pageSize :: int
  uicrBaseAddr :: int

subsection \<open>The Immutable.js list operations the actions call\<close>

text \<open>
  \<^verbatim>\<open>List.indexOf\<close> gives the first index holding an equal value, and \<open>-1\<close> when there is
  none. Immutable compares records by value, field by field, and so does HOL's equality on
  \<open>Region\<close>. (A field holding a JavaScript array, as \<^verbatim>\<open>fileNames\<close> does, is compared by
  identity there; the passes only look up regions they have just taken from the list
  itself, and entries that differ in nothing but the identity of that array are the same
  value here.)
\<close>

fun indexOf :: "'a list \<Rightarrow> 'a \<Rightarrow> int" where
  "indexOf [] v = - 1"
| "indexOf (x # xs) v =
     (if x = v then 0 else (let i = indexOf xs v in if i < 0 then - 1 else i + 1))"

text \<open>
  Immutable's \<^verbatim>\<open>wrapIndex\<close>: a negative index counts from the end of the list.
\<close>

definition wrapIndex :: "'a list \<Rightarrow> int \<Rightarrow> int" where
  "wrapIndex xs index = (if index < 0 then int (length xs) + index else index)"

text \<open>
  \<^verbatim>\<open>List.remove(index)\<close>: the index is wrapped; an index that is still outside the
  list leaves the list as it is.
\<close>

definition remove_at :: "'a list \<Rightarrow> int \<Rightarrow> 'a list" where
  "remove_at xs index =
     (let i = wrapIndex xs index
      in if i < 0 \<or> int (length xs) \<le> i then xs
         else take (nat i) xs @ drop (Suc (nat i)) xs)"

text \<open>
  \<^verbatim>\<open>List.set(index, value)\<close>: a negative index counts from the end. An index that is
  outside the list after that makes Immutable grow the list, padding with undefined
  entries; of the indices \<open>indexOf\<close> can give, that happens only for \<open>-1\<close> on the empty
  list, where the result is the one-element list. The other growing cases have no value
  in a list of regions and never arise from \<open>indexOf\<close>; they are left as the unchanged list.
\<close>

definition set_at :: "'a list \<Rightarrow> int \<Rightarrow> 'a \<Rightarrow> 'a list" where
  "set_at xs index v =
     (let i = wrapIndex xs index
      in if i < 0 \<or> int (length xs) \<le> i
         then (if xs = [] \<and> index = - 1 then [v] else xs)
         else xs[nat i := v])"

text \<open>
  The JavaScript test \<^verbatim>\<open>!a || p(a)\<close> on an accumulator that starts undefined:
  \<^verbatim>\<open>!a\<close> holds for \<^verbatim>\<open>undefined\<close> and also for the number \<open>0\<close>.
\<close>

definition undefOr :: "int option \<Rightarrow> (int \<Rightarrow> bool) \<Rightarrow> bool" where
  "undefOr a p = (case a of None \<Rightarrow> True | Some v \<Rightarrow> v = 0 \<or> p v)"

section \<open>The application-merge pass: updateFileAppRegions\<close>

text \<open>
  One step of the first \<^verbatim>\<open>forEach\<close>: the pair is \<^verbatim>\<open>(appStartAddress, appEndAddress)\<close>,
  \<open>None\<close> standing for \<^verbatim>\<open>undefined\<close>. The bootloader region is the one of the
  \<^emph>\<open>target\<close> device's regions.
\<close>

definition appScanStep ::
  "Region option \<Rightarrow> int option \<times> int option \<Rightarrow> Region \<Rightarrow> int option \<times> int option" where
  "appScanStep targetBootloaderRegion acc r =
     (let appStartAddress = fst acc; appEndAddress = snd acc;
          appStartAddress' =
            (if name r = APPLICATION \<and> undefOr appStartAddress (\<lambda>a. a > startAddress r)
             then Some (startAddress r) else appStartAddress);
          appEndAddress' =
            (case targetBootloaderRegion of
               None \<Rightarrow> appEndAddress
             | Some b \<Rightarrow>
                 if name r = APPLICATION \<and> startAddress r < startAddress b
                    \<and> undefOr appEndAddress (\<lambda>e. e < startAddress r)
                 then Some (startAddress r + regionSize r) else appEndAddress)
      in (appStartAddress', appEndAddress'))"

definition appScan :: "Region option \<Rightarrow> Region list \<Rightarrow> int option \<times> int option" where
  "appScan targetBootloaderRegion fileRegions =
     foldl (appScanStep targetBootloaderRegion) (None, None) fileRegions"

text \<open>
  The second \<^verbatim>\<open>forEach\<close> walks the list as it was and removes from the current list,
  one by one, the first entry equal to each fragment below the bootloader.
\<close>

definition appRemoveStep :: "Region \<Rightarrow> Region list \<Rightarrow> Region \<Rightarrow> Region list" where
  "appRemoveStep b acc r =
     (if name r = APPLICATION \<and> startAddress r < startAddress b
      then remove_at acc (indexOf acc r) else acc)"

definition appRegion :: "int \<Rightarrow> int \<Rightarrow> Region" where
  "appRegion appStartAddress appEndAddress =
     \<lparr>name = APPLICATION, startAddress = appStartAddress,
      regionSize = appEndAddress - appStartAddress,
      color = ColorAPPLICATION, fileNames = []\<rparr>"

text \<open>
  The pass, as the region list of the store after it: the list it dispatches with
  \<^verbatim>\<open>fileRegionsKnownAction\<close>, or the list as it was when nothing is dispatched.
\<close>

definition updateFileAppRegions :: "Region list \<Rightarrow> Region list \<Rightarrow> Region list" where
  "updateFileAppRegions fileRegions targetRegions =
     (let targetBootloaderRegion = find (\<lambda>r. name r = BOOTLOADER) targetRegions;
          bounds = appScan targetBootloaderRegion fileRegions
      in case targetBootloaderRegion of
           None \<Rightarrow> fileRegions
         | Some b \<Rightarrow>
             (case fst bounds of
                None \<Rightarrow> fileRegions
              | Some appStartAddress \<Rightarrow>
                  (case snd bounds of
                     None \<Rightarrow> fileRegions
                   | Some appEndAddress \<Rightarrow>
                       foldl (appRemoveStep b) fileRegions fileRegions
                         @ [appRegion appStartAddress appEndAddress])))"

section \<open>The bootloader-merge pass: updateFileBlRegion\<close>

definition blScanStep :: "Region \<Rightarrow> DeviceInfo \<Rightarrow> int option \<Rightarrow> Region \<Rightarrow> int option" where
  "blScanStep blRegion deviceInfo blEndAddress r =
     (if name r = NONE \<and> startAddress r > startAddress blRegion
         \<and> startAddress r + regionSize r < romSize deviceInfo
         \<and> undefOr blEndAddress (\<lambda>e. e \<le> startAddress r)
      then Some (startAddress r + regionSize r) else blEndAddress)"

definition blScan :: "Region \<Rightarrow> DeviceInfo \<Rightarrow> Region list \<Rightarrow> int option" where
  "blScan blRegion deviceInfo fileRegions =
     foldl (blScanStep blRegion deviceInfo) None fileRegions"

definition blRemoveStep :: "Region list \<Rightarrow> Region \<Rightarrow> Region list" where
  "blRemoveStep acc r = (if name r = NONE then remove_at acc (indexOf acc r) else acc)"

definition updateFileBlRegion :: "Region list \<Rightarrow> DeviceInfo \<Rightarrow> Region list" where
  "updateFileBlRegion fileRegions deviceInfo =
     (case find (\<lambda>r. name r = BOOTLOADER) fileRegions of
        None \<Rightarrow> fileRegions
      | Some blRegion \<Rightarrow>
          (case blScan blRegion deviceInfo fileRegions of
             None \<Rightarrow> fileRegions
           | Some blEndAddress \<Rightarrow>
               (let removed = foldl blRemoveStep fileRegions fileRegions;
                    blRegionIndex = indexOf removed blRegion
                in set_at removed blRegionIndex
                     (blRegion\<lparr>regionSize := blEndAddress - startAddress blRegion\<rparr>))))"

text \<open>The two passes in the order the reconciler runs them.\<close>

definition reconcile :: "Region list \<Rightarrow> Region list \<Rightarrow> DeviceInfo \<Rightarrow> Region list" where
  "reconcile fileRegions targetRegions deviceInfo =
     updateFileBlRegion (updateFileAppRegions fileRegions targetRegions) deviceInfo"

text \<open>A region as the spec writes it, \<open>[start, end)\<close> with a name.\<close>

definition region :: "RegionName \<Rightarrow> RegionColor \<Rightarrow> int \<Rightarrow> int \<Rightarrow> Region" where
  "region n c s e = \<lparr>name = n, startAddress = s, regionSize = e - s, color = c, fileNames = []\<rparr>"

section \<open>Vocabulary of the properties\<close>

definition endAddress :: "Region \<Rightarrow> int" where
  "endAddress r = startAddress r + regionSize r"

text \<open>An APPLICATION fragment that starts below the bootloader region \<open>b\<close>.\<close>

definition belowBootloader :: "Region \<Rightarrow> Region \<Rightarrow> bool" where
  "belowBootloader b r = (name r = APPLICATION \<and> startAddress r < startAddress b)"

text \<open>
  A NONE region the scan of the bootloader pass looks at: it starts after the bootloader
  start and ends before \<open>romSize\<close>.
\<close>

definition qualifyingNone :: "Region \<Rightarrow> DeviceInfo \<Rightarrow> Region \<Rightarrow> bool" where
  "qualifyingNone blRegion deviceInfo r =
     (name r = NONE \<and> startAddress blRegion < startAddress r
        \<and> endAddress r < romSize deviceInfo)"

text \<open>The list with its first BOOTLOADER region replaced by \<open>w\<close>.\<close>

fun replaceFirstBootloader :: "Region \<Rightarrow> Region list \<Rightarrow> Region list" where
  "replaceFirstBootloader w [] = []"
| "replaceFirstBootloader w (r # rs) =
     (if name r = BOOTLOADER then w # rs else r # replaceFirstBootloader w rs)"

text \<open>The bootloader region \<open>b\<close> with its end moved to \<open>e\<close>.\<close>

definition widenedTo :: "Region \<Rightarrow> int \<Rightarrow> Region" where
  "widenedTo b e = b\<lparr>regionSize := e - startAddress b\<rparr>"

text \<open>
  Two regions intersect when some address lies in both half-open intervals
  \<open>[start, start + size)\<close>; a region of size zero or less holds no address.
\<close>

definition intersects :: "Region \<Rightarrow> Region \<Rightarrow> bool" where
  "intersects a b = (max (startAddress a) (startAddress b) < min (endAddress a) (endAddress b))"

definition disjointRegions :: "Region list \<Rightarrow> bool" where
  "disjointRegions rs = sorted_wrt (\<lambda>a b. \<not> intersects a b) rs"

text \<open>Two regions with a gap between them: one ends strictly before the other starts.\<close>

definition separated :: "Region \<Rightarrow> Region \<Rightarrow> bool" where
  "separated a b = (endAddress a < startAddress b \<or> endAddress b < startAddress a)"

text \<open>One region ends at or before the start of the other.\<close>

definition apart :: "Region \<Rightarrow> Region \<Rightarrow> bool" where
  "apart a b = (endAddress a \<le> startAddress b \<or> endAddress b \<le> startAddress a)"

text \<open>The region \<open>r\<close> holds an address of the span \<open>[lo, hi)\<close>.\<close>

definition overlapsSpan :: "Region \<Rightarrow> int \<Rightarrow> int \<Rightarrow> bool" where
  "overlapsSpan r lo hi = (max (startAddress r) lo < min (endAddress r) hi)"

text \<open>
  The span the application pass merges over: from the lowest start to the highest end of
  the APPLICATION fragments below the target's bootloader. \<open>appSpanFree\<close> says that no
  region the pass keeps holds an address of that span (and holds trivially when the pass
  has nothing to merge).
\<close>

definition appSpanFree :: "Region list \<Rightarrow> Region list \<Rightarrow> bool" where
  "appSpanFree fileRegions targetRegions =
     (case find (\<lambda>r. name r = BOOTLOADER) targetRegions of
        None \<Rightarrow> True
      | Some b \<Rightarrow>
          (let q = filter (belowBootloader b) fileRegions
           in q = [] \<or>
              list_all (\<lambda>k. belowBootloader b k \<or>
                          \<not> overlapsSpan k (Min (set (map startAddress q)))
                                           (Max (set (map endAddress q))))
                fileRegions))"

text \<open>
  The span the bootloader pass widens over: from the bootloader's start to the highest end
  of the qualifying NONE regions. \<open>blSpanFree\<close> says that no region other than the NONE
  regions and the bootloader itself holds an address of that span.
\<close>

definition blSpanFree :: "Region list \<Rightarrow> DeviceInfo \<Rightarrow> bool" where
  "blSpanFree fileRegions deviceInfo =
     (case find (\<lambda>r. name r = BOOTLOADER) fileRegions of
        None \<Rightarrow> True
      | Some bl \<Rightarrow>
          (let q = filter (qualifyingNone bl deviceInfo) fileRegions
           in q = [] \<or>
              list_all (\<lambda>k. name k = NONE \<or> k = bl \<or>
                          \<not> overlapsSpan k (startAddress bl) (Max (set (map endAddress q))))
                fileRegions))"

section \<open>Data outside the writable area: the warning of updateFileRegions\<close>

text \<open>
  \<^verbatim>\<open>MemoryMap.overlapMemoryMaps\<close> (library \<^verbatim>\<open>nrf-intel-hex\<close>) gives a \<^verbatim>\<open>Map\<close> from a start
  address to the list of \<^verbatim>\<open>[fileName, bytes]\<close> pairs covering the block that starts
  there; it is an input of the loop below, in the order \<^verbatim>\<open>forEach\<close> visits it.
\<close>

type_synonym bytes = "8 word list"

type_synonym overlap = "(string \<times> bytes) list"

text \<open>
  Modelled from the spec: \<^verbatim>\<open>hexpad8\<close> of \<^verbatim>\<open>lib/util/hexpad\<close>, which is not among the
  sources. The spec has it render an address as "8-hex-digit, zero-padded": the
  hexadecimal digits of the number, padded on the left with \<open>0\<close> to eight characters.
\<close>

definition hexDigit :: "nat \<Rightarrow> char" where
  "hexDigit d = ''0123456789ABCDEF'' ! d"

function hexDigits :: "nat \<Rightarrow> string" where
  "hexDigits n = (if n < 16 then [hexDigit n] else hexDigits (n div 16) @ [hexDigit (n mod 16)])"
  by pat_completeness auto
termination
  by (relation "measure id") auto

declare hexDigits.simps [simp del]

definition hexpad8 :: "int \<Rightarrow> string" where
  "hexpad8 n = (let ds = hexDigits (nat n) in replicate (8 - length ds) CHR ''0'' @ ds)"

text \<open>
  Reading a string of hexadecimal digits back, to say what a rendering denotes. A
  character that is not one of the sixteen digits has no value, and a string holding one
  denotes nothing.
\<close>

definition digitValue :: "char \<Rightarrow> nat option" where
  "digitValue c =
     (if c \<in> set ''0123456789ABCDEF''
      then Some (length (takeWhile (\<lambda>x. x \<noteq> c) ''0123456789ABCDEF'')) else None)"

definition hexValueStep :: "nat option \<Rightarrow> char \<Rightarrow> nat option" where
  "hexValueStep acc c =
     (case acc of
        None \<Rightarrow> None
      | Some a \<Rightarrow> (case digitValue c of None \<Rightarrow> None | Some d \<Rightarrow> Some (16 * a + d)))"

definition hexValue :: "string \<Rightarrow> nat option" where
  "hexValue s = foldl hexValueStep (Some 0) s"

text \<open>
  The test of lines 245-246 on one block, and one step of the \<^verbatim>\<open>forEach\<close> over the
  overlaps (the primed names are the loop's \<^verbatim>\<open>startAddress\<close> and \<^verbatim>\<open>endAddress\<close>). \<^verbatim>\<open>overlap[0][1].length\<close> raises a TypeError on an empty list of pairs: the
  result \<open>None\<close>.
\<close>

definition outsideFlash :: "DeviceInfo \<Rightarrow> int \<Rightarrow> int \<Rightarrow> bool" where
  "outsideFlash deviceInfo startAddress' endAddress' =
     ((startAddress' < uicrBaseAddr deviceInfo \<and> endAddress' > romSize deviceInfo)
      \<or> (startAddress' \<ge> uicrBaseAddr deviceInfo
          \<and> endAddress' > uicrBaseAddr deviceInfo + pageSize deviceInfo))"

definition outsideFlashStep ::
  "DeviceInfo \<Rightarrow> string list option \<Rightarrow> int \<times> overlap \<Rightarrow> string list option" where
  "outsideFlashStep deviceInfo acc entry =
     (case acc of
        None \<Rightarrow> None
      | Some outsideFlashBlocks \<Rightarrow>
          (case snd entry of
             [] \<Rightarrow> None
           | first # _ \<Rightarrow>
               (let startAddress' = fst entry;
                    endAddress' = startAddress' + int (length (snd first))
                in if outsideFlash deviceInfo startAddress' endAddress'
                   then Some (outsideFlashBlocks
                                @ [hexpad8 startAddress' @ ''-'' @ hexpad8 endAddress'])
                   else Some outsideFlashBlocks)))"

definition outsideFlashBlocks :: "DeviceInfo \<Rightarrow> (int \<times> overlap) list \<Rightarrow> string list option" where
  "outsideFlashBlocks deviceInfo overlaps = foldl (outsideFlashStep deviceInfo) (Some []) overlaps"

text \<open>\<^verbatim>\<open>Array.join\<close>.\<close>

fun join :: "string \<Rightarrow> string list \<Rightarrow> string" where
  "join sep [] = []"
| "join sep [x] = x"
| "join sep (x # y # ys) = x @ sep @ join sep (y # ys)"

text \<open>The warning the thunk dispatches for the blocks, if any.\<close>

definition outsideFlashWarning :: "DeviceInfo \<Rightarrow> (int \<times> overlap) list \<Rightarrow> string option option" where
  "outsideFlashWarning deviceInfo overlaps =
     (case outsideFlashBlocks deviceInfo overlaps of
        None \<Rightarrow> None
      | Some blocks \<Rightarrow>
          Some (if blocks \<noteq> []
                then Some (''There is data outside the user-writable areas (''
                             @ join '', '' blocks @ '').'')
                else None))"

text \<open>The end of the block of an entry of the overlaps, as the loop computes it.\<close>

definition blockEnd :: "int \<times> overlap \<Rightarrow> int" where
  "blockEnd entry = fst entry + int (length (snd (hd (snd entry))))"

definition renderBlock :: "int \<times> overlap \<Rightarrow> string" where
  "renderBlock entry = hexpad8 (fst entry) @ ''-'' @ hexpad8 (blockEnd entry)"

section \<open>The most-recently-used list\<close>

text \<open>
  The list lives in the persistent store under \<^verbatim>\<open>mruFiles\<close>; the functions take the
  stored list and give the list stored afterwards. \<^verbatim>\<open>addMruFile\<close> writes only when the
  file name is not in the list: \<^verbatim>\<open>unshift\<close> puts it first, \<^verbatim>\<open>splice(10)\<close> drops
  everything from index 10 on.
\<close>

definition removeMruFile :: "string \<Rightarrow> string list \<Rightarrow> string list" where
  "removeMruFile filename files = filter (\<lambda>file. file \<noteq> filename) files"

definition addMruFile :: "string \<Rightarrow> string list \<Rightarrow> string list" where
  "addMruFile filename files =
     (if indexOf files filename = - 1 then take 10 (filename # files) else files)"

section \<open>Parsing one file: parseOneFile\<close>

type_synonym MemoryMap = "(int \<times> bytes) list"

record LoadedFile =
  filename :: string
  modTime :: int
  loadTime :: int
  memMap :: MemoryMap

record FileState =
  loaded :: "string \<rightharpoonup> LoadedFile"
  memMaps :: "(string \<times> MemoryMap) list"

text \<open>
  What the thunk gets from outside for the one path: the result of \<^verbatim>\<open>stat\<close> (an error or
  the modification time), the result of \<^verbatim>\<open>readFile\<close> (an error or the text), the parser
  \<^verbatim>\<open>MemoryMap.fromHex\<close> (an error or the memory map, whose blocks \<^verbatim>\<open>forEach\<close> visits in
  this order), \<^verbatim>\<open>path.basename\<close> and the clock.
\<close>

record Env =
  statResult :: "string + int"
  readResult :: "string + string"
  fromHex :: "string \<Rightarrow> string + MemoryMap"
  basename :: "string \<Rightarrow> string"
  now :: int

text \<open>
  The actions the thunk dispatches. A dispatched thunk (\<^verbatim>\<open>updateFileRegions()\<close>,
  \<^verbatim>\<open>updateTargetWritable()\<close>) is recorded by its name.
\<close>

datatype Action =
    ErrorDialogShow string
  | McubootFileKnown "string option"
  | FileParse "string \<rightharpoonup> LoadedFile" "(string \<times> MemoryMap) list"
  | UpdateFileRegions
  | UpdateTargetWritable

text \<open>How the promise of the async thunk settles.\<close>

datatype Outcome = Resolved | Rejected

definition MCUBOOT_FW_START_ADDRESS :: int where
  "MCUBOOT_FW_START_ADDRESS = 0xC000"

definition mcubootStep :: "string \<Rightarrow> Action list \<Rightarrow> int \<times> bytes \<Rightarrow> Action list" where
  "mcubootStep filePath dispatched entry =
     (if fst entry = MCUBOOT_FW_START_ADDRESS
      then dispatched @ [McubootFileKnown (Some filePath)] else dispatched)"

text \<open>
  The result is how the promise settles, the actions dispatched in order, and the
  most-recently-used list afterwards. A path counts as loaded when \<^verbatim>\<open>loaded[filePath]\<close>
  is truthy; the entries are objects, so that is when the map has the key.
\<close>

definition parseOneFile ::
  "Env \<Rightarrow> string \<Rightarrow> FileState \<Rightarrow> string list \<Rightarrow> Outcome \<times> Action list \<times> string list" where
  "parseOneFile env filePath st mruFiles =
     (if loaded st filePath \<noteq> None then (Resolved, [], mruFiles)
      else
        (case statResult env of
           Inl statsError \<Rightarrow>
             (Rejected, [ErrorDialogShow statsError], removeMruFile filePath mruFiles)
         | Inr mtime \<Rightarrow>
             (case readResult env of
                Inl readError \<Rightarrow>
                  (Rejected, [ErrorDialogShow readError], removeMruFile filePath mruFiles)
              | Inr content \<Rightarrow>
                  (let mruFiles' = addMruFile filePath mruFiles
                   in case fromHex env content of
                        Inl e \<Rightarrow> (Resolved, [ErrorDialogShow e], mruFiles')
                      | Inr memMap' \<Rightarrow>
                          (let newLoaded = (loaded st)(filePath \<mapsto>
                                 \<lparr>filename = basename env filePath, modTime = mtime,
                                  loadTime = now env, memMap = memMap'\<rparr>);
                               newMemMaps = memMaps st @ [(filePath, memMap')]
                           in (Resolved,
                               foldl (mcubootStep filePath) [] memMap'
                                 @ [FileParse newLoaded newMemMaps,
                                    UpdateFileRegions, UpdateTargetWritable],
                               mruFiles'))))))"

section \<open>Facts about the list operations\<close>

lemma indexOf_takeWhile:
  "indexOf xs v = (if v \<in> set xs then int (length (takeWhile (\<lambda>x. x \<noteq> v) xs)) else - 1)"
  by (induction xs) (auto simp: Let_def)

lemma length_takeWhile_mem:
  "v \<in> set xs \<Longrightarrow> length (takeWhile (\<lambda>x. x \<noteq> v) xs) < length xs"
  by (induction xs) auto

lemma remove_at_nat:
  "i < length xs \<Longrightarrow> remove_at xs (int i) = take i xs @ drop (Suc i) xs"
  by (simp add: remove_at_def wrapIndex_def)

lemma remove1_takeWhile:
  "v \<in> set xs \<Longrightarrow>
     remove1 v xs = take (length (takeWhile (\<lambda>x. x \<noteq> v) xs)) xs
                      @ drop (Suc (length (takeWhile (\<lambda>x. x \<noteq> v) xs))) xs"
  by (induction xs) auto

lemma remove_at_indexOf:
  "v \<in> set xs \<Longrightarrow> remove_at xs (indexOf xs v) = remove1 v xs"
  by (simp add: indexOf_takeWhile remove_at_nat length_takeWhile_mem remove1_takeWhile)

text \<open>
  Walking the original list and removing, from the current list, the first entry equal
  to each element that satisfies \<open>P\<close> leaves exactly the elements that do not.
\<close>

lemma foldl_remove_filter:
  assumes "\<forall>p\<in>set pre. \<not> P p"
  shows "foldl (\<lambda>acc r. if P r then remove_at acc (indexOf acc r) else acc) (pre @ ys) ys
           = pre @ filter (\<lambda>r. \<not> P r) ys"
  using assms
proof (induction ys arbitrary: pre)
  case Nil
  then show ?case by simp
next
  case (Cons y ys)
  show ?case
  proof (cases "P y")
    case True
    have notin: "y \<notin> set pre" using Cons.prems True by auto
    have "remove_at (pre @ y # ys) (indexOf (pre @ y # ys) y) = remove1 y (pre @ y # ys)"
      by (rule remove_at_indexOf) simp
    also have "\<dots> = pre @ ys" using notin by (simp add: remove1_append)
    finally show ?thesis using True Cons.IH [OF Cons.prems] by simp
  next
    case False
    have "\<forall>p\<in>set (pre @ [y]). \<not> P p" using Cons.prems False by simp
    from Cons.IH [OF this] show ?thesis using False by simp
  qed
qed

lemma set_at_indexOf:
  "v \<in> set xs \<Longrightarrow> set_at xs (indexOf xs v) w = xs[length (takeWhile (\<lambda>x. x \<noteq> v) xs) := w]"
  using length_takeWhile_mem [of v xs]
  by (simp add: set_at_def wrapIndex_def indexOf_takeWhile Let_def)

lemma appRemove_filter:
  "foldl (appRemoveStep b) fr fr = filter (\<lambda>r. \<not> belowBootloader b r) fr"
proof -
  have step: "appRemoveStep b = (\<lambda>acc r. if belowBootloader b r then remove_at acc (indexOf acc r) else acc)"
    by (intro ext) (simp add: appRemoveStep_def belowBootloader_def)
  show ?thesis
    using foldl_remove_filter [of "[]" "belowBootloader b" fr] by (simp add: step)
qed

lemma blRemove_filter:
  "foldl blRemoveStep fr fr = filter (\<lambda>r. name r \<noteq> NONE) fr"
proof -
  have step: "blRemoveStep = (\<lambda>acc r. if name r = NONE then remove_at acc (indexOf acc r) else acc)"
    by (intro ext) (simp add: blRemoveStep_def)
  show ?thesis
    using foldl_remove_filter [of "[]" "\<lambda>r. name r = NONE" fr] by (simp add: step)
qed

lemma find_bootloader_name: "find (\<lambda>r. name r = BOOTLOADER) xs = Some bl \<Longrightarrow> name bl = BOOTLOADER"
  by (induction xs) (auto split: if_splits)

lemma find_bootloader_mem: "find (\<lambda>r. name r = BOOTLOADER) xs = Some bl \<Longrightarrow> bl \<in> set xs"
  by (induction xs) (auto split: if_splits)

lemma set_at_first_bootloader:
  "find (\<lambda>r. name r = BOOTLOADER) xs = Some bl \<Longrightarrow>
     set_at xs (indexOf xs bl) w = replaceFirstBootloader w xs"
proof (induction xs)
  case Nil
  then show ?case by simp
next
  case (Cons x xs)
  show ?case
  proof (cases "name x = BOOTLOADER")
    case True
    with Cons.prems have "x = bl" by simp
    then show ?thesis using True by (simp add: set_at_def wrapIndex_def)
  next
    case False
    with Cons.prems have f: "find (\<lambda>r. name r = BOOTLOADER) xs = Some bl" by simp
    have ne: "x \<noteq> bl" using False find_bootloader_name [OF f] by auto
    have mem: "bl \<in> set xs" by (rule find_bootloader_mem [OF f])
    have "set_at (x # xs) (indexOf (x # xs) bl) w
            = (x # xs)[length (takeWhile (\<lambda>y. y \<noteq> bl) (x # xs)) := w]"
      by (rule set_at_indexOf) (simp add: mem)
    also have "\<dots> = x # xs[length (takeWhile (\<lambda>y. y \<noteq> bl) xs) := w]"
      using ne by simp
    also have "\<dots> = x # set_at xs (indexOf xs bl) w"
      by (simp add: set_at_indexOf [OF mem])
    also have "\<dots> = x # replaceFirstBootloader w xs"
      by (simp add: Cons.IH [OF f])
    finally show ?thesis using False by simp
  qed
qed

lemma find_filter_notNone:
  "find (\<lambda>r. name r = BOOTLOADER) (filter (\<lambda>r. name r \<noteq> NONE) xs)
     = find (\<lambda>r. name r = BOOTLOADER) xs"
  by (induction xs) auto

subsection \<open>The scan of the application pass\<close>

lemma appScan_snoc:
  "appScan t (fr @ [r]) = appScanStep t (appScan t fr) r"
  by (simp add: appScan_def)

lemma appScan_Nil: "appScan t [] = (None, None)"
  by (simp add: appScan_def)

lemma appScan_no_target: "snd (appScan None fr) = None"
  by (induction fr rule: rev_induct) (simp_all add: appScan_Nil appScan_snoc appScanStep_def Let_def)

lemma appScan_snd_None:
  "snd (appScan (Some b) fr) = None \<longleftrightarrow> (\<forall>r\<in>set fr. \<not> belowBootloader b r)"
  by (induction fr rule: rev_induct)
     (auto simp: appScan_Nil appScan_snoc appScanStep_def belowBootloader_def undefOr_def Let_def)

lemma appScan_fst_None:
  "fst (appScan t fr) = None \<longleftrightarrow> (\<forall>r\<in>set fr. name r \<noteq> APPLICATION)"
  by (induction fr rule: rev_induct)
     (auto simp: appScan_Nil appScan_snoc appScanStep_def undefOr_def Let_def)

lemma appScan_fst_mem:
  "fst (appScan t fr) = Some s \<Longrightarrow> \<exists>r\<in>set fr. name r = APPLICATION \<and> startAddress r = s"
  by (induction fr arbitrary: s rule: rev_induct)
     (auto simp: appScan_Nil appScan_snoc appScanStep_def Let_def split: if_splits)

lemma appScan_snd_mem:
  "snd (appScan (Some b) fr) = Some e \<Longrightarrow> \<exists>r\<in>set fr. belowBootloader b r \<and> endAddress r = e"
  by (induction fr arbitrary: e rule: rev_induct)
     (auto simp: appScan_Nil appScan_snoc appScanStep_def Let_def belowBootloader_def endAddress_def
           split: if_splits)

text \<open>The scan only looks at APPLICATION fragments.\<close>

lemma appScan_filter:
  "appScan t (filter (\<lambda>r. name r = APPLICATION) fr) = appScan t fr"
  by (induction fr rule: rev_induct)
     (auto simp: appScan_Nil appScan_snoc appScanStep_def Let_def split: option.splits)

text \<open>The pass in closed form.\<close>

lemma updateFileAppRegions_noop:
  "find (\<lambda>r. name r = BOOTLOADER) tr = None \<Longrightarrow> updateFileAppRegions fr tr = fr"
  by (simp add: updateFileAppRegions_def Let_def)

lemma updateFileAppRegions_none_below:
  assumes "find (\<lambda>r. name r = BOOTLOADER) tr = Some b"
    and "\<forall>r\<in>set fr. \<not> belowBootloader b r"
  shows "updateFileAppRegions fr tr = fr"
proof -
  have "snd (appScan (Some b) fr) = None" using assms(2) by (simp add: appScan_snd_None)
  then show ?thesis using assms(1)
    by (simp add: updateFileAppRegions_def Let_def split: option.splits)
qed

lemma updateFileAppRegions_merge:
  assumes "find (\<lambda>r. name r = BOOTLOADER) tr = Some b"
    and "\<exists>r\<in>set fr. belowBootloader b r"
  shows "\<exists>s e. appScan (Some b) fr = (Some s, Some e)
           \<and> updateFileAppRegions fr tr
               = filter (\<lambda>r. \<not> belowBootloader b r) fr @ [appRegion s e]"
proof -
  from assms(2) have "snd (appScan (Some b) fr) \<noteq> None" by (simp add: appScan_snd_None)
  then obtain e where e: "snd (appScan (Some b) fr) = Some e" by auto
  from assms(2) have "fst (appScan (Some b) fr) \<noteq> None"
    by (auto simp: appScan_fst_None belowBootloader_def)
  then obtain s where s: "fst (appScan (Some b) fr) = Some s" by auto
  have "appScan (Some b) fr = (Some s, Some e)" using s e by (simp add: prod_eq_iff)
  moreover have "updateFileAppRegions fr tr
                   = filter (\<lambda>r. \<not> belowBootloader b r) fr @ [appRegion s e]"
    using assms(1) s e by (simp add: updateFileAppRegions_def Let_def appRemove_filter)
  ultimately show ?thesis by blast
qed

subsection \<open>The scan of the bootloader pass\<close>

lemma blScan_snoc: "blScan bl d (fr @ [r]) = blScanStep bl d (blScan bl d fr) r"
  by (simp add: blScan_def)

lemma blScan_Nil: "blScan bl d [] = None"
  by (simp add: blScan_def)

lemma blScan_None:
  "blScan bl d fr = None \<longleftrightarrow> (\<forall>r\<in>set fr. \<not> qualifyingNone bl d r)"
  by (induction fr rule: rev_induct)
     (auto simp: blScan_Nil blScan_snoc blScanStep_def qualifyingNone_def endAddress_def
                 undefOr_def)

lemma blScan_mem:
  "blScan bl d fr = Some e \<Longrightarrow> \<exists>r\<in>set fr. qualifyingNone bl d r \<and> endAddress r = e"
  by (induction fr arbitrary: e rule: rev_induct)
     (auto simp: blScan_Nil blScan_snoc blScanStep_def qualifyingNone_def endAddress_def
           split: if_splits)

text \<open>The scan only looks at NONE regions.\<close>

lemma blScan_filter:
  "blScan bl d (filter (\<lambda>r. name r = NONE) fr) = blScan bl d fr"
  by (induction fr rule: rev_induct)
     (auto simp: blScan_Nil blScan_snoc blScanStep_def)

text \<open>The pass in closed form.\<close>

lemma updateFileBlRegion_no_bootloader:
  "find (\<lambda>r. name r = BOOTLOADER) fr = None \<Longrightarrow> updateFileBlRegion fr d = fr"
  by (simp add: updateFileBlRegion_def)

lemma updateFileBlRegion_none_qualifying:
  assumes "find (\<lambda>r. name r = BOOTLOADER) fr = Some bl"
    and "\<forall>r\<in>set fr. \<not> qualifyingNone bl d r"
  shows "updateFileBlRegion fr d = fr"
proof -
  have "blScan bl d fr = None" using assms(2) by (simp add: blScan_None)
  then show ?thesis using assms(1) by (simp add: updateFileBlRegion_def)
qed

lemma updateFileBlRegion_merge:
  assumes "find (\<lambda>r. name r = BOOTLOADER) fr = Some bl"
    and "blScan bl d fr = Some e"
  shows "updateFileBlRegion fr d
           = replaceFirstBootloader (widenedTo bl e) (filter (\<lambda>r. name r \<noteq> NONE) fr)"
proof -
  have f: "find (\<lambda>r. name r = BOOTLOADER) (filter (\<lambda>r. name r \<noteq> NONE) fr) = Some bl"
    using assms(1) by (simp add: find_filter_notNone)
  show ?thesis
    using assms set_at_first_bootloader [OF f]
    by (simp add: updateFileBlRegion_def Let_def blRemove_filter widenedTo_def)
qed

subsection \<open>Running a pass again, and the two passes in either order\<close>

lemma belowBootloader_appRegion:
  "belowBootloader b (appRegion s e) \<longleftrightarrow> s < startAddress b"
  by (simp add: belowBootloader_def appRegion_def)

lemma updateFileAppRegions_idem:
  "updateFileAppRegions (updateFileAppRegions fr tr) tr = updateFileAppRegions fr tr"
proof (cases "find (\<lambda>r. name r = BOOTLOADER) tr")
  case None
  then show ?thesis by (simp add: updateFileAppRegions_noop)
next
  case (Some b)
  show ?thesis
  proof (cases "\<exists>r\<in>set fr. belowBootloader b r")
    case False
    then have "updateFileAppRegions fr tr = fr"
      using updateFileAppRegions_none_below [OF Some] by blast
    then show ?thesis by simp
  next
    case True
    from updateFileAppRegions_merge [OF Some True] obtain s e where
      scan: "appScan (Some b) fr = (Some s, Some e)" and
      out: "updateFileAppRegions fr tr = filter (\<lambda>r. \<not> belowBootloader b r) fr @ [appRegion s e]"
      by blast
    let ?K = "filter (\<lambda>r. \<not> belowBootloader b r) fr"
    let ?a = "appRegion s e"
    have K: "\<forall>r\<in>set ?K. \<not> belowBootloader b r" by simp
    show ?thesis
    proof (cases "s < startAddress b")
      case False
      then have "\<forall>r\<in>set (?K @ [?a]). \<not> belowBootloader b r"
        by (simp add: belowBootloader_appRegion)
      from updateFileAppRegions_none_below [OF Some this] show ?thesis by (simp add: out)
    next
      case below: True
      have sndK: "snd (appScan (Some b) ?K) = None" using K by (simp add: appScan_snd_None)
      have fstK: "undefOr (fst (appScan (Some b) ?K)) (\<lambda>a. a > s)"
      proof (cases "fst (appScan (Some b) ?K)")
        case None
        then show ?thesis by (simp add: undefOr_def)
      next
        case (Some v)
        from appScan_fst_mem [OF Some] obtain r where
          r: "r \<in> set ?K" "name r = APPLICATION" "startAddress r = v" by blast
        then have "\<not> belowBootloader b r" by simp
        with r have "startAddress b \<le> v" by (simp add: belowBootloader_def)
        with below show ?thesis by (simp add: undefOr_def Some)
      qed
      have scan2: "appScan (Some b) (?K @ [?a]) = (Some s, Some e)"
        using sndK fstK below
        by (simp add: appScan_snoc appScanStep_def Let_def appRegion_def undefOr_def)
      have ex: "\<exists>r\<in>set (?K @ [?a]). belowBootloader b r"
        using below by (simp add: belowBootloader_appRegion)
      from updateFileAppRegions_merge [OF Some ex] scan2
      have "updateFileAppRegions (?K @ [?a]) tr
              = filter (\<lambda>r. \<not> belowBootloader b r) (?K @ [?a]) @ [?a]"
        by simp
      also have "\<dots> = ?K @ [?a]" using below by (simp add: belowBootloader_appRegion)
      finally show ?thesis by (simp add: out)
    qed
  qed
qed

lemma set_replaceFirstBootloader:
  "set (replaceFirstBootloader w xs) \<subseteq> insert w (set xs)"
  by (induction xs) auto

lemma find_replaceFirstBootloader:
  "name w = BOOTLOADER \<Longrightarrow> find (\<lambda>r. name r = BOOTLOADER) xs = Some bl \<Longrightarrow>
     find (\<lambda>r. name r = BOOTLOADER) (replaceFirstBootloader w xs) = Some w"
  by (induction xs) (auto split: if_splits)

lemma updateFileBlRegion_idem:
  "updateFileBlRegion (updateFileBlRegion fr d) d = updateFileBlRegion fr d"
proof (cases "find (\<lambda>r. name r = BOOTLOADER) fr")
  case None
  then show ?thesis by (simp add: updateFileBlRegion_no_bootloader)
next
  case (Some bl)
  show ?thesis
  proof (cases "blScan bl d fr")
    case None
    then have "updateFileBlRegion fr d = fr" using Some by (simp add: updateFileBlRegion_def)
    then show ?thesis by simp
  next
    case scan: (Some e)
    define w where "w = widenedTo bl e"
    define out where "out = replaceFirstBootloader w (filter (\<lambda>r. name r \<noteq> NONE) fr)"
    have out: "updateFileBlRegion fr d = out"
      unfolding out_def w_def by (rule updateFileBlRegion_merge [OF Some scan])
    have nw: "name w = BOOTLOADER"
      using find_bootloader_name [OF Some] by (simp add: widenedTo_def w_def)
    have noNone: "\<forall>r\<in>set out. name r \<noteq> NONE"
    proof
      fix r assume "r \<in> set out"
      then have "r = w \<or> r \<in> set (filter (\<lambda>r. name r \<noteq> NONE) fr)"
        using set_replaceFirstBootloader [of w "filter (\<lambda>r. name r \<noteq> NONE) fr"]
        unfolding out_def by blast
      then show "name r \<noteq> NONE" using nw by (elim disjE) simp_all
    qed
    have f: "find (\<lambda>r. name r = BOOTLOADER) out = Some w"
      unfolding out_def
      by (rule find_replaceFirstBootloader [OF nw]) (simp add: find_filter_notNone Some)
    have "\<forall>r\<in>set out. \<not> qualifyingNone w d r" using noNone by (simp add: qualifyingNone_def)
    from updateFileBlRegion_none_qualifying [OF f this]
    have "updateFileBlRegion out d = out" .
    then show ?thesis unfolding out by simp
  qed
qed

lemma filter_replaceFirstBootloader:
  assumes "name w = BOOTLOADER" and "\<And>r. name r = BOOTLOADER \<Longrightarrow> P r"
  shows "filter P (replaceFirstBootloader w xs) = replaceFirstBootloader w (filter P xs)"
  using assms by (induction xs) auto

lemma filter_out_replaceFirstBootloader:
  assumes "name w = BOOTLOADER" and "\<And>r. name r = BOOTLOADER \<Longrightarrow> \<not> P r"
  shows "filter P (replaceFirstBootloader w xs) = filter P xs"
  using assms by (induction xs) auto

lemma replaceFirstBootloader_snoc:
  "name a \<noteq> BOOTLOADER \<Longrightarrow>
     replaceFirstBootloader w (xs @ [a]) = replaceFirstBootloader w xs @ [a]"
  by (induction xs) auto

lemma find_bootloader_filter:
  assumes "\<And>r. name r = BOOTLOADER \<Longrightarrow> P r"
  shows "find (\<lambda>r. name r = BOOTLOADER) (filter P xs) = find (\<lambda>r. name r = BOOTLOADER) xs"
  using assms by (induction xs) auto

lemma find_bootloader_snoc:
  "name a \<noteq> BOOTLOADER \<Longrightarrow>
     find (\<lambda>r. name r = BOOTLOADER) (xs @ [a]) = find (\<lambda>r. name r = BOOTLOADER) xs"
  by (induction xs) auto

text \<open>What the bootloader pass leaves alone: the APPLICATION fragments.\<close>

lemma updateFileBlRegion_applications:
  "filter (\<lambda>r. name r = APPLICATION) (updateFileBlRegion fr d)
     = filter (\<lambda>r. name r = APPLICATION) fr"
proof (cases "find (\<lambda>r. name r = BOOTLOADER) fr")
  case None
  then show ?thesis by (simp add: updateFileBlRegion_no_bootloader)
next
  case (Some bl)
  show ?thesis
  proof (cases "blScan bl d fr")
    case None
    then show ?thesis using Some by (simp add: updateFileBlRegion_def)
  next
    case scan: (Some e)
    have nw: "name (widenedTo bl e) = BOOTLOADER"
      using find_bootloader_name [OF Some] by (simp add: widenedTo_def)
    have "filter (\<lambda>r. name r = APPLICATION)
            (replaceFirstBootloader (widenedTo bl e) (filter (\<lambda>r. name r \<noteq> NONE) fr))
          = filter (\<lambda>r. name r = APPLICATION) (filter (\<lambda>r. name r \<noteq> NONE) fr)"
      by (rule filter_out_replaceFirstBootloader [OF nw]) simp
    also have "\<dots> = filter (\<lambda>r. name r = APPLICATION) fr"
      by (induction fr) auto
    finally show ?thesis by (simp add: updateFileBlRegion_merge [OF Some scan])
  qed
qed

text \<open>What the application pass leaves alone: the first BOOTLOADER region and the NONE regions.\<close>

lemma updateFileAppRegions_shape:
  "updateFileAppRegions fr tr = fr
   \<or> (\<exists>b s e. find (\<lambda>r. name r = BOOTLOADER) tr = Some b
        \<and> appScan (Some b) fr = (Some s, Some e)
        \<and> updateFileAppRegions fr tr
            = filter (\<lambda>r. \<not> belowBootloader b r) fr @ [appRegion s e])"
proof (cases "find (\<lambda>r. name r = BOOTLOADER) tr")
  case None
  then show ?thesis by (simp add: updateFileAppRegions_noop)
next
  case (Some b)
  show ?thesis
  proof (cases "\<exists>r\<in>set fr. belowBootloader b r")
    case True
    from updateFileAppRegions_merge [OF Some True] Some show ?thesis by blast
  next
    case False
    then show ?thesis using updateFileAppRegions_none_below [OF Some] by blast
  qed
qed

lemma updateFileAppRegions_bootloader:
  "find (\<lambda>r. name r = BOOTLOADER) (updateFileAppRegions fr tr)
     = find (\<lambda>r. name r = BOOTLOADER) fr"
proof -
  have "find (\<lambda>r. name r = BOOTLOADER) (filter (\<lambda>r. \<not> belowBootloader b r) fr @ [appRegion s e])
          = find (\<lambda>r. name r = BOOTLOADER) fr" for b s e
  proof -
    have "find (\<lambda>r. name r = BOOTLOADER) (filter (\<lambda>r. \<not> belowBootloader b r) fr @ [appRegion s e])
            = find (\<lambda>r. name r = BOOTLOADER) (filter (\<lambda>r. \<not> belowBootloader b r) fr)"
      by (rule find_bootloader_snoc) (simp add: appRegion_def)
    also have "\<dots> = find (\<lambda>r. name r = BOOTLOADER) fr"
      by (rule find_bootloader_filter) (simp add: belowBootloader_def)
    finally show ?thesis .
  qed
  then show ?thesis using updateFileAppRegions_shape [of fr tr] by auto
qed

lemma updateFileAppRegions_nones:
  "filter (\<lambda>r. name r = NONE) (updateFileAppRegions fr tr) = filter (\<lambda>r. name r = NONE) fr"
proof -
  have "filter (\<lambda>r. name r = NONE) (filter (\<lambda>r. \<not> belowBootloader b r) fr @ [appRegion s e])
          = filter (\<lambda>r. name r = NONE) fr" for b s e
    by (induction fr) (auto simp: appRegion_def belowBootloader_def)
  then show ?thesis using updateFileAppRegions_shape [of fr tr] by auto
qed

lemma belowBootloader_via_applications:
  "(\<exists>r\<in>set xs. belowBootloader b r)
     \<longleftrightarrow> (\<exists>r\<in>set (filter (\<lambda>r. name r = APPLICATION) xs). belowBootloader b r)"
  by (auto simp: belowBootloader_def)

lemma qualifyingNone_via_nones:
  "(\<exists>r\<in>set xs. qualifyingNone bl d r)
     \<longleftrightarrow> (\<exists>r\<in>set (filter (\<lambda>r. name r = NONE) xs). qualifyingNone bl d r)"
  by (auto simp: qualifyingNone_def)

text \<open>The two passes can be run in either order.\<close>

lemma passes_commute:
  "updateFileAppRegions (updateFileBlRegion fr d) tr
     = updateFileBlRegion (updateFileAppRegions fr tr) d"
proof -
  define M where "M = updateFileBlRegion fr d"
  define N where "N = updateFileAppRegions fr tr"
  have appsM: "filter (\<lambda>r. name r = APPLICATION) M = filter (\<lambda>r. name r = APPLICATION) fr"
    unfolding M_def by (rule updateFileBlRegion_applications)
  have blN: "find (\<lambda>r. name r = BOOTLOADER) N = find (\<lambda>r. name r = BOOTLOADER) fr"
    unfolding N_def by (rule updateFileAppRegions_bootloader)
  have nonesN: "filter (\<lambda>r. name r = NONE) N = filter (\<lambda>r. name r = NONE) fr"
    unfolding N_def by (rule updateFileAppRegions_nones)
  have scanM: "appScan t M = appScan t fr" for t
    using appScan_filter [of t M] appScan_filter [of t fr] appsM by simp
  have scanN: "blScan bl d N = blScan bl d fr" for bl
    using blScan_filter [of bl d N] blScan_filter [of bl d fr] nonesN by simp
  have belowM: "(\<exists>r\<in>set M. belowBootloader b r) \<longleftrightarrow> (\<exists>r\<in>set fr. belowBootloader b r)" for b
    using belowBootloader_via_applications [of M b] belowBootloader_via_applications [of fr b]
      appsM by simp
  show ?thesis
  proof (cases "find (\<lambda>r. name r = BOOTLOADER) tr")
    case None
    then show ?thesis by (simp add: updateFileAppRegions_noop)
  next
    case tb: (Some b)
    show ?thesis
    proof (cases "\<exists>r\<in>set fr. belowBootloader b r")
      case False
      then have "updateFileAppRegions fr tr = fr"
        using updateFileAppRegions_none_below [OF tb] by blast
      moreover have "updateFileAppRegions M tr = M"
        using False belowM [of b] updateFileAppRegions_none_below [OF tb, of M] by blast
      ultimately show ?thesis by (simp add: M_def)
    next
      case True
      from updateFileAppRegions_merge [OF tb True] obtain s e where
        scan: "appScan (Some b) fr = (Some s, Some e)" and
        Neq: "N = filter (\<lambda>r. \<not> belowBootloader b r) fr @ [appRegion s e]"
        unfolding N_def by blast
      have "\<exists>r\<in>set M. belowBootloader b r" using True belowM [of b] by simp
      from updateFileAppRegions_merge [OF tb this] scanM [of "Some b"] scan
      have appM: "updateFileAppRegions M tr
                    = filter (\<lambda>r. \<not> belowBootloader b r) M @ [appRegion s e]"
        by simp
      show ?thesis
      proof (cases "find (\<lambda>r. name r = BOOTLOADER) fr")
        case None
        then have "M = fr" unfolding M_def by (simp add: updateFileBlRegion_no_bootloader)
        moreover have "updateFileBlRegion N d = N"
          using None blN by (simp add: updateFileBlRegion_no_bootloader)
        ultimately show ?thesis by (simp add: M_def N_def)
      next
        case fb: (Some bl)
        have fbN: "find (\<lambda>r. name r = BOOTLOADER) N = Some bl" using fb blN by simp
        show ?thesis
        proof (cases "blScan bl d fr")
          case None
          then have "M = fr" unfolding M_def using fb by (simp add: updateFileBlRegion_def)
          moreover have "updateFileBlRegion N d = N"
            using None scanN [of bl] fbN by (simp add: updateFileBlRegion_def)
          ultimately show ?thesis by (simp add: M_def N_def)
        next
          case bscan: (Some e')
          define w where "w = widenedTo bl e'"
          have nw: "name w = BOOTLOADER"
            using find_bootloader_name [OF fb] by (simp add: widenedTo_def w_def)
          have Meq: "M = replaceFirstBootloader w (filter (\<lambda>r. name r \<noteq> NONE) fr)"
            unfolding M_def w_def by (rule updateFileBlRegion_merge [OF fb bscan])
          have bscanN: "blScan bl d N = Some e'" using bscan scanN [of bl] by simp
          have blN': "updateFileBlRegion N d
                        = replaceFirstBootloader w (filter (\<lambda>r. name r \<noteq> NONE) N)"
            unfolding w_def by (rule updateFileBlRegion_merge [OF fbN bscanN])
          have keepM: "filter (\<lambda>r. \<not> belowBootloader b r) M
                  = replaceFirstBootloader w
                      (filter (\<lambda>r. \<not> belowBootloader b r) (filter (\<lambda>r. name r \<noteq> NONE) fr))"
            unfolding Meq
            by (rule filter_replaceFirstBootloader [OF nw]) (simp add: belowBootloader_def)
          have "filter (\<lambda>r. name r \<noteq> NONE) N
                  = filter (\<lambda>r. name r \<noteq> NONE) (filter (\<lambda>r. \<not> belowBootloader b r) fr)
                      @ [appRegion s e]"
            unfolding Neq by (simp add: appRegion_def)
          then have "updateFileBlRegion N d
                  = replaceFirstBootloader w
                      (filter (\<lambda>r. name r \<noteq> NONE) (filter (\<lambda>r. \<not> belowBootloader b r) fr))
                      @ [appRegion s e]"
            unfolding blN' by (simp add: replaceFirstBootloader_snoc appRegion_def)
          also have "filter (\<lambda>r. name r \<noteq> NONE) (filter (\<lambda>r. \<not> belowBootloader b r) fr)
                  = filter (\<lambda>r. \<not> belowBootloader b r) (filter (\<lambda>r. name r \<noteq> NONE) fr)"
            by (simp add: conj_commute)
          finally have "updateFileBlRegion N d = updateFileAppRegions M tr"
            unfolding appM keepM .
          then show ?thesis by (simp add: M_def N_def)
        qed
      qed
    qed
  qed
qed

section \<open>What the scans find on well-separated regions\<close>

lemma appScan_fst_min:
  assumes "\<forall>r\<in>set fr. name r = APPLICATION \<longrightarrow> startAddress r \<noteq> 0"
    and "\<exists>r\<in>set fr. name r = APPLICATION"
  shows "fst (appScan t fr)
           = Some (Min (set (map startAddress (filter (\<lambda>r. name r = APPLICATION) fr))))"
  using assms
proof (induction fr rule: rev_induct)
  case Nil
  then show ?case by simp
next
  case (snoc x xs)
  let ?A = "set (map startAddress (filter (\<lambda>r. name r = APPLICATION) xs))"
  have nz: "\<forall>r\<in>set xs. name r = APPLICATION \<longrightarrow> startAddress r \<noteq> 0"
    using snoc.prems(1) by simp
  show ?case
  proof (cases "name x = APPLICATION")
    case False
    then have ex: "\<exists>r\<in>set xs. name r = APPLICATION" using snoc.prems(2) by auto
    have "fst (appScan t (xs @ [x])) = fst (appScan t xs)"
      using False by (simp add: appScan_snoc appScanStep_def Let_def)
    then show ?thesis using snoc.IH [OF nz ex] False by simp
  next
    case True
    show ?thesis
    proof (cases "\<exists>r\<in>set xs. name r = APPLICATION")
      case False
      then have none: "fst (appScan t xs) = None" by (simp add: appScan_fst_None)
      have "filter (\<lambda>r. name r = APPLICATION) xs = []" using False by (simp add: filter_empty_conv)
      then show ?thesis
        using True none by (simp add: appScan_snoc appScanStep_def Let_def undefOr_def)
    next
      case ex: True
      define m where "m = Min ?A"
      have IH: "fst (appScan t xs) = Some m" unfolding m_def by (rule snoc.IH [OF nz ex])
      have fin: "finite ?A" by simp
      have ne: "?A \<noteq> {}" using ex by (auto simp: filter_empty_conv)
      have "m \<in> ?A" unfolding m_def by (rule Min_in [OF fin ne])
      then have m0: "m \<noteq> 0" using nz by auto
      have "fst (appScan t (xs @ [x]))
              = Some (if startAddress x < m then startAddress x else m)"
        using True IH m0 by (simp add: appScan_snoc appScanStep_def Let_def undefOr_def)
      also have "(if startAddress x < m then startAddress x else m) = min (startAddress x) m"
        by (simp add: min_def)
      also have "\<dots> = Min (insert (startAddress x) ?A)"
        unfolding m_def by (rule Min_insert [OF fin ne, symmetric])
      finally show ?thesis using True by simp
    qed
  qed
qed

lemma appScan_snd_max:
  assumes "\<forall>r\<in>set fr. belowBootloader b r \<longrightarrow> 0 < startAddress r \<and> 0 \<le> regionSize r"
    and "sorted_wrt separated (filter (belowBootloader b) fr)"
    and "\<exists>r\<in>set fr. belowBootloader b r"
  shows "snd (appScan (Some b) fr)
           = Some (Max (set (map endAddress (filter (belowBootloader b) fr))))"
  using assms
proof (induction fr rule: rev_induct)
  case Nil
  then show ?case by simp
next
  case (snoc x xs)
  let ?E = "set (map endAddress (filter (belowBootloader b) xs))"
  have pos: "\<forall>r\<in>set xs. belowBootloader b r \<longrightarrow> 0 < startAddress r \<and> 0 \<le> regionSize r"
    using snoc.prems(1) by simp
  have sep: "sorted_wrt separated (filter (belowBootloader b) xs)"
    using snoc.prems(2) by (simp add: sorted_wrt_append)
  show ?case
  proof (cases "belowBootloader b x")
    case False
    then have ex: "\<exists>r\<in>set xs. belowBootloader b r" using snoc.prems(3) by auto
    have "snd (appScan (Some b) (xs @ [x])) = snd (appScan (Some b) xs)"
      using False by (auto simp: appScan_snoc appScanStep_def Let_def belowBootloader_def)
    then show ?thesis using snoc.IH [OF pos sep ex] False by simp
  next
    case True
    then have nx: "name x = APPLICATION" "startAddress x < startAddress b"
      by (simp_all add: belowBootloader_def)
    have px: "0 < startAddress x" "0 \<le> regionSize x" using snoc.prems(1) True by simp_all
    show ?thesis
    proof (cases "\<exists>r\<in>set xs. belowBootloader b r")
      case False
      then have none: "snd (appScan (Some b) xs) = None" by (simp add: appScan_snd_None)
      have "filter (belowBootloader b) xs = []" using False by (simp add: filter_empty_conv)
      then show ?thesis
        using True nx none
        by (simp add: appScan_snoc appScanStep_def Let_def undefOr_def endAddress_def)
    next
      case ex: True
      define m where "m = Max ?E"
      have IH: "snd (appScan (Some b) xs) = Some m" unfolding m_def by (rule snoc.IH [OF pos sep ex])
      have fin: "finite ?E" by simp
      have ne: "?E \<noteq> {}" using ex by (auto simp: filter_empty_conv)
      have "m \<in> ?E" unfolding m_def by (rule Max_in [OF fin ne])
      then obtain q where q: "q \<in> set xs" "belowBootloader b q" "endAddress q = m" by auto
      have "0 < startAddress q \<and> 0 \<le> regionSize q" using pos q by simp
      then have m0: "0 < m" and qs: "startAddress q \<le> m" using q(3) by (simp_all add: endAddress_def)
      have "separated q x"
        using snoc.prems(2) True q by (simp add: sorted_wrt_append)
      then have cases: "m < startAddress x \<or> endAddress x < startAddress q"
        using q(3) by (simp add: separated_def)
      have ex_ge: "startAddress x \<le> endAddress x" using px by (simp add: endAddress_def)
      have step: "snd (appScan (Some b) (xs @ [x]))
              = Some (if m < startAddress x then endAddress x else m)"
        using nx IH m0 by (simp add: appScan_snoc appScanStep_def Let_def undefOr_def endAddress_def)
      have "(if m < startAddress x then endAddress x else m) = max (endAddress x) m"
        using cases qs ex_ge by (auto simp: max_def)
      also have "\<dots> = Max (insert (endAddress x) ?E)"
        unfolding m_def by (rule Max_insert [OF fin ne, symmetric])
      finally show ?thesis using True step by simp
    qed
  qed
qed

lemma blScan_max:
  assumes "0 \<le> startAddress bl"
    and "\<forall>r\<in>set fr. qualifyingNone bl d r \<longrightarrow> 0 \<le> regionSize r"
    and "sorted_wrt apart (filter (qualifyingNone bl d) fr)"
    and "\<exists>r\<in>set fr. qualifyingNone bl d r"
  shows "blScan bl d fr = Some (Max (set (map endAddress (filter (qualifyingNone bl d) fr))))"
  using assms(2-)
proof (induction fr rule: rev_induct)
  case Nil
  then show ?case by simp
next
  case (snoc x xs)
  let ?E = "set (map endAddress (filter (qualifyingNone bl d) xs))"
  have pos: "\<forall>r\<in>set xs. qualifyingNone bl d r \<longrightarrow> 0 \<le> regionSize r"
    using snoc.prems(1) by simp
  have sep: "sorted_wrt apart (filter (qualifyingNone bl d) xs)"
    using snoc.prems(2) by (simp add: sorted_wrt_append)
  show ?case
  proof (cases "qualifyingNone bl d x")
    case False
    then have ex: "\<exists>r\<in>set xs. qualifyingNone bl d r" using snoc.prems(3) by auto
    have "blScan bl d (xs @ [x]) = blScan bl d xs"
      using False by (auto simp: blScan_snoc blScanStep_def qualifyingNone_def endAddress_def)
    then show ?thesis using snoc.IH [OF pos sep ex] False by simp
  next
    case True
    then have qx: "name x = NONE" "startAddress bl < startAddress x"
        "startAddress x + regionSize x < romSize d"
      by (simp_all add: qualifyingNone_def endAddress_def)
    have px: "0 \<le> regionSize x" using snoc.prems(1) True by simp
    show ?thesis
    proof (cases "\<exists>r\<in>set xs. qualifyingNone bl d r")
      case False
      then have none: "blScan bl d xs = None" by (simp add: blScan_None)
      have "filter (qualifyingNone bl d) xs = []" using False by (simp add: filter_empty_conv)
      then show ?thesis
        using True qx none by (simp add: blScan_snoc blScanStep_def undefOr_def endAddress_def)
    next
      case ex: True
      define m where "m = Max ?E"
      have IH: "blScan bl d xs = Some m" unfolding m_def by (rule snoc.IH [OF pos sep ex])
      have fin: "finite ?E" by simp
      have ne: "?E \<noteq> {}" using ex by (auto simp: filter_empty_conv)
      have "m \<in> ?E" unfolding m_def by (rule Max_in [OF fin ne])
      then obtain q where q: "q \<in> set xs" "qualifyingNone bl d q" "endAddress q = m" by auto
      have "0 \<le> regionSize q" using pos q by simp
      moreover have "startAddress bl < startAddress q" using q(2) by (simp add: qualifyingNone_def)
      ultimately have m0: "0 < m" and qs: "startAddress q \<le> m"
        using q(3) assms(1) by (simp_all add: endAddress_def)
      have "apart q x"
        using snoc.prems(2) True q by (simp add: sorted_wrt_append)
      then have cases: "m \<le> startAddress x \<or> endAddress x \<le> startAddress q"
        using q(3) by (simp add: apart_def)
      have ex_ge: "startAddress x \<le> endAddress x" using px by (simp add: endAddress_def)
      have step: "blScan bl d (xs @ [x])
              = Some (if m \<le> startAddress x then endAddress x else m)"
        using qx IH m0 by (simp add: blScan_snoc blScanStep_def undefOr_def endAddress_def)
      have "(if m \<le> startAddress x then endAddress x else m) = max (endAddress x) m"
        using cases qs ex_ge by (auto simp: max_def)
      also have "\<dots> = Max (insert (endAddress x) ?E)"
        unfolding m_def by (rule Max_insert [OF fin ne, symmetric])
      finally show ?thesis using True step by simp
    qed
  qed
qed

text \<open>
  On fragments that start above address \<open>0\<close> and are pairwise separated by a gap, the
  application pass does merge from the lowest start to the highest end.
\<close>

lemma updateFileAppRegions_merges:
  assumes "find (\<lambda>r. name r = BOOTLOADER) tr = Some b"
    and "\<exists>r\<in>set fr. belowBootloader b r"
    and "\<forall>r\<in>set fr. name r = APPLICATION \<longrightarrow> 0 < startAddress r \<and> 0 \<le> regionSize r"
    and "sorted_wrt separated (filter (belowBootloader b) fr)"
  shows "updateFileAppRegions fr tr
           = filter (\<lambda>r. \<not> belowBootloader b r) fr
             @ [appRegion
                  (Min (set (map startAddress (filter (\<lambda>r. name r = APPLICATION) fr))))
                  (Max (set (map endAddress (filter (belowBootloader b) fr))))]"
proof -
  from updateFileAppRegions_merge [OF assms(1,2)] obtain s e where
    scan: "appScan (Some b) fr = (Some s, Some e)" and
    out: "updateFileAppRegions fr tr = filter (\<lambda>r. \<not> belowBootloader b r) fr @ [appRegion s e]"
    by blast
  have nz: "\<forall>r\<in>set fr. name r = APPLICATION \<longrightarrow> startAddress r \<noteq> 0"
    using assms(3) by auto
  have exA: "\<exists>r\<in>set fr. name r = APPLICATION"
    using assms(2) by (auto simp: belowBootloader_def)
  have pos: "\<forall>r\<in>set fr. belowBootloader b r \<longrightarrow> 0 < startAddress r \<and> 0 \<le> regionSize r"
    using assms(3) by (auto simp: belowBootloader_def)
  have "Some s = Some (Min (set (map startAddress (filter (\<lambda>r. name r = APPLICATION) fr))))"
    using appScan_fst_min [OF nz exA, of "Some b"] scan by simp
  moreover have "Some e = Some (Max (set (map endAddress (filter (belowBootloader b) fr))))"
    using appScan_snd_max [OF pos assms(4) assms(2)] scan by simp
  ultimately show ?thesis using out by simp
qed

text \<open>
  On qualifying NONE regions that do not overlap one another, the bootloader pass widens
  the first BOOTLOADER region to the highest end among them; every NONE region is gone
  and the other regions stay as they were, in order.
\<close>

lemma updateFileBlRegion_widens:
  assumes "find (\<lambda>r. name r = BOOTLOADER) fr = Some bl"
    and "\<exists>r\<in>set fr. qualifyingNone bl d r"
    and "0 \<le> startAddress bl"
    and "\<forall>r\<in>set fr. qualifyingNone bl d r \<longrightarrow> 0 \<le> regionSize r"
    and "sorted_wrt apart (filter (qualifyingNone bl d) fr)"
  shows "updateFileBlRegion fr d
           = replaceFirstBootloader
               (widenedTo bl (Max (set (map endAddress (filter (qualifyingNone bl d) fr)))))
               (filter (\<lambda>r. name r \<noteq> NONE) fr)"
  using updateFileBlRegion_merge [OF assms(1) blScan_max [OF assms(3,4,5,2)]] .

section \<open>Where the passes miss the merge they attempt\<close>

text \<open>
  Claim C1 says the synthesized APPLICATION region starts at the lowest start of all
  APPLICATION fragments. The scan tests \<^verbatim>\<open>!appStartAddress\<close> to see whether a start was
  found yet, and that test also holds for the start address \<open>0\<close>: with the fragments
  \<open>[0x0, 0x1000)\<close> and \<open>[0x2000, 0x3000)\<close> below a target bootloader at \<open>0x5000\<close>, the
  pass removes both fragments and inserts \<open>[0x2000, 0x3000)\<close>, although the lowest start
  is \<open>0\<close>.
\<close>

theorem updateFileAppRegions_zero_start:
  "updateFileAppRegions
     [region APPLICATION ColorAPPLICATION 0x0 0x1000,
      region APPLICATION ColorAPPLICATION 0x2000 0x3000]
     [region BOOTLOADER ColorBOOTLOADER 0x5000 0x6000]
   = [appRegion 0x2000 0x3000]
   \<and> startAddress (appRegion 0x2000 0x3000) = 0x2000
   \<and> Min (set (map startAddress
        [region APPLICATION ColorAPPLICATION 0x0 0x1000,
         region APPLICATION ColorAPPLICATION 0x2000 0x3000])) = 0"
  by (simp add: updateFileAppRegions_def appScan_def appScanStep_def undefOr_def region_def
                appRemoveStep_def remove_at_def wrapIndex_def appRegion_def Let_def)

text \<open>
  The end of the merged region is taken from a fragment only when the end found so far is
  strictly below that fragment's \<^emph>\<open>start\<close>; a fragment that begins exactly where the
  previous one ends is removed without the merged region reaching its end.
\<close>

lemma updateFileAppRegions_adjacent_fragments:
  "updateFileAppRegions
     [region APPLICATION ColorAPPLICATION 0x1000 0x2000,
      region APPLICATION ColorAPPLICATION 0x2000 0x3000]
     [region BOOTLOADER ColorBOOTLOADER 0x5000 0x6000]
   = [appRegion 0x1000 0x2000]
   \<and> endAddress (appRegion 0x1000 0x2000) = 0x2000
   \<and> Max (set (map endAddress
        [region APPLICATION ColorAPPLICATION 0x1000 0x2000,
         region APPLICATION ColorAPPLICATION 0x2000 0x3000])) = 0x3000"
  by (simp add: updateFileAppRegions_def appScan_def appScanStep_def undefOr_def region_def
                appRemoveStep_def remove_at_def wrapIndex_def appRegion_def endAddress_def Let_def)

text \<open>
  Claim C2 says the bootloader pass removes only the NONE regions its scan looked at. The
  removal loop tests the name alone: here the NONE region \<open>[0x1000, 0x1100)\<close> starts
  before the bootloader and the NONE region \<open>[0x9000, 0x9100)\<close> ends beyond
  \<open>romSize = 0x8000\<close>; neither qualifies for the scan, and both are removed together with
  the qualifying \<open>[0x7100, 0x7200)\<close>.
\<close>

theorem updateFileBlRegion_removes_unscanned:
  "updateFileBlRegion
     [region NONE ColorNONE 0x1000 0x1100,
      region BOOTLOADER ColorBOOTLOADER 0x7000 0x7100,
      region NONE ColorNONE 0x7100 0x7200,
      region NONE ColorNONE 0x9000 0x9100]
     \<lparr>romSize = 0x8000, pageSize = 0x1000, uicrBaseAddr = 0x10001000\<rparr>
   = [region BOOTLOADER ColorBOOTLOADER 0x7000 0x7200]
   \<and> \<not> qualifyingNone (region BOOTLOADER ColorBOOTLOADER 0x7000 0x7100)
          \<lparr>romSize = 0x8000, pageSize = 0x1000, uicrBaseAddr = 0x10001000\<rparr>
          (region NONE ColorNONE 0x1000 0x1100)
   \<and> \<not> qualifyingNone (region BOOTLOADER ColorBOOTLOADER 0x7000 0x7100)
          \<lparr>romSize = 0x8000, pageSize = 0x1000, uicrBaseAddr = 0x10001000\<rparr>
          (region NONE ColorNONE 0x9000 0x9100)"
  by (simp add: updateFileBlRegion_def blScan_def blScanStep_def undefOr_def region_def
                blRemoveStep_def remove_at_def set_at_def wrapIndex_def qualifyingNone_def
                endAddress_def Let_def)

section \<open>Disjointness of the reconciled regions\<close>

lemma intersects_sym: "intersects a b = intersects b a"
  by (simp add: intersects_def max.commute min.commute)

lemma disjointRegions_filter: "disjointRegions xs \<Longrightarrow> disjointRegions (filter P xs)"
  by (simp add: disjointRegions_def sorted_wrt_filter)

lemma disjointRegions_snoc:
  "disjointRegions (xs @ [a]) \<longleftrightarrow> disjointRegions xs \<and> (\<forall>x\<in>set xs. \<not> intersects x a)"
  by (auto simp: disjointRegions_def sorted_wrt_append)

lemma disjointRegions_Cons:
  "disjointRegions (x # xs) \<longleftrightarrow> (\<forall>y\<in>set xs. \<not> intersects x y) \<and> disjointRegions xs"
  by (simp add: disjointRegions_def)

lemma intersects_within_span:
  assumes "intersects k a" and "lo \<le> startAddress a" and "endAddress a \<le> hi"
  shows "overlapsSpan k lo hi"
  using assms by (auto simp: intersects_def overlapsSpan_def)

lemma disjointRegions_replaceFirstBootloader:
  assumes "disjointRegions xs"
    and "find (\<lambda>r. name r = BOOTLOADER) xs = Some bl"
    and "startAddress w = startAddress bl"
    and "\<forall>k\<in>set xs. k \<noteq> bl \<longrightarrow> \<not> intersects k w"
  shows "disjointRegions (replaceFirstBootloader w xs)"
  using assms
proof (induction xs)
  case Nil
  then show ?case by simp
next
  case (Cons x xs)
  from Cons.prems(1) have dx: "\<forall>y\<in>set xs. \<not> intersects x y" and dxs: "disjointRegions xs"
    by (simp_all add: disjointRegions_Cons)
  show ?case
  proof (cases "name x = BOOTLOADER")
    case True
    with Cons.prems(2) have xbl: "x = bl" by simp
    have "\<not> intersects w y" if y: "y \<in> set xs" for y
    proof (cases "y = bl")
      case False
      with Cons.prems(4) y have "\<not> intersects y w" by simp
      then show ?thesis by (simp add: intersects_sym)
    next
      case ybl: True
      from dx y xbl ybl have "\<not> intersects bl bl" by simp
      then have "endAddress bl \<le> startAddress bl" by (simp add: intersects_def)
      then show ?thesis using Cons.prems(3) ybl by (simp add: intersects_def)
    qed
    then show ?thesis using True dxs by (simp add: disjointRegions_Cons)
  next
    case False
    with Cons.prems(2) have f: "find (\<lambda>r. name r = BOOTLOADER) xs = Some bl" by simp
    have ne: "x \<noteq> bl" using False find_bootloader_name [OF f] by auto
    have IH: "disjointRegions (replaceFirstBootloader w xs)"
      using Cons.IH [OF dxs f Cons.prems(3)] Cons.prems(4) by simp
    have "\<not> intersects x y" if y: "y \<in> set (replaceFirstBootloader w xs)" for y
    proof -
      from y set_replaceFirstBootloader [of w xs] have "y = w \<or> y \<in> set xs" by blast
      then show ?thesis
      proof
        assume "y = w"
        then show ?thesis using Cons.prems(4) ne by simp
      next
        assume "y \<in> set xs"
        then show ?thesis using dx by simp
      qed
    qed
    then show ?thesis using False IH by (simp add: disjointRegions_Cons)
  qed
qed

lemma updateFileAppRegions_disjoint:
  assumes d: "disjointRegions fr" and free: "appSpanFree fr tr"
  shows "disjointRegions (updateFileAppRegions fr tr)"
proof (cases "find (\<lambda>r. name r = BOOTLOADER) tr")
  case None
  then show ?thesis using d by (simp add: updateFileAppRegions_noop)
next
  case (Some b)
  show ?thesis
  proof (cases "\<exists>r\<in>set fr. belowBootloader b r")
    case False
    then show ?thesis using d updateFileAppRegions_none_below [OF Some, of fr] by simp
  next
    case True
    define q where "q = filter (belowBootloader b) fr"
    define lo where "lo = Min (set (map startAddress q))"
    define hi where "hi = Max (set (map endAddress q))"
    have qne: "q \<noteq> []" using True by (auto simp: q_def filter_empty_conv)
    from updateFileAppRegions_merge [OF Some True] obtain s e where
      scan: "appScan (Some b) fr = (Some s, Some e)" and
      out: "updateFileAppRegions fr tr = filter (\<lambda>r. \<not> belowBootloader b r) fr @ [appRegion s e]"
      by blast
    have kept: "\<not> overlapsSpan k lo hi" if "k \<in> set fr" "\<not> belowBootloader b k" for k
      using free Some qne that
      by (auto simp: appSpanFree_def Let_def q_def [symmetric] lo_def hi_def list_all_iff)
    from True obtain q0 where q0: "q0 \<in> set fr" "belowBootloader b q0" by blast
    have lo_le: "lo \<le> startAddress r" if "r \<in> set fr" "belowBootloader b r" for r
      unfolding lo_def using that by (intro Min_le) (auto simp: q_def)
    have le_hi: "endAddress r \<le> hi" if "r \<in> set fr" "belowBootloader b r" for r
      unfolding hi_def using that by (intro Max_ge) (auto simp: q_def)
    have "fst (appScan (Some b) fr) = Some s" using scan by simp
    from appScan_fst_mem [OF this] obtain r0 where
      r0: "r0 \<in> set fr" "name r0 = APPLICATION" "startAddress r0 = s" by blast
    have lo_s: "lo \<le> s"
    proof (cases "belowBootloader b r0")
      case True
      then show ?thesis using lo_le [OF r0(1)] r0(3) by simp
    next
      case False
      with r0 have "startAddress b \<le> s" by (simp add: belowBootloader_def)
      moreover have "startAddress q0 < startAddress b" using q0 by (simp add: belowBootloader_def)
      moreover have "lo \<le> startAddress q0" using lo_le q0 by simp
      ultimately show ?thesis by simp
    qed
    have "snd (appScan (Some b) fr) = Some e" using scan by simp
    from appScan_snd_mem [OF this] obtain r1 where
      r1: "r1 \<in> set fr" "belowBootloader b r1" "endAddress r1 = e" by blast
    have e_hi: "e \<le> hi" using le_hi [OF r1(1,2)] r1(3) by simp
    have sa: "startAddress (appRegion s e) = s" and ea: "endAddress (appRegion s e) = e"
      by (simp_all add: appRegion_def endAddress_def)
    have "\<not> intersects k (appRegion s e)"
      if "k \<in> set (filter (\<lambda>r. \<not> belowBootloader b r) fr)" for k
    proof
      assume "intersects k (appRegion s e)"
      then have "overlapsSpan k lo hi"
        by (rule intersects_within_span) (simp_all add: sa ea lo_s e_hi)
      then show False using kept that by simp
    qed
    then show ?thesis
      using d by (simp add: out disjointRegions_snoc disjointRegions_filter)
  qed
qed

lemma updateFileBlRegion_disjoint:
  assumes d: "disjointRegions fr" and free: "blSpanFree fr dv"
  shows "disjointRegions (updateFileBlRegion fr dv)"
proof (cases "find (\<lambda>r. name r = BOOTLOADER) fr")
  case None
  then show ?thesis using d by (simp add: updateFileBlRegion_no_bootloader)
next
  case (Some bl)
  show ?thesis
  proof (cases "blScan bl dv fr")
    case None
    then show ?thesis using d Some by (simp add: updateFileBlRegion_def)
  next
    case scan: (Some e)
    define q where "q = filter (qualifyingNone bl dv) fr"
    define hi where "hi = Max (set (map endAddress q))"
    define w where "w = widenedTo bl e"
    define kept where "kept = filter (\<lambda>r. name r \<noteq> NONE) fr"
    from blScan_mem [OF scan] obtain r1 where
      r1: "r1 \<in> set fr" "qualifyingNone bl dv r1" "endAddress r1 = e" by blast
    have qne: "q \<noteq> []" using r1 by (auto simp: q_def filter_empty_conv)
    have e_hi: "e \<le> hi"
      unfolding hi_def using r1 by (intro Max_ge) (auto simp: q_def)
    have others: "\<not> overlapsSpan k (startAddress bl) hi"
      if "k \<in> set fr" "name k \<noteq> NONE" "k \<noteq> bl" for k
      using free Some qne that
      by (auto simp: blSpanFree_def Let_def q_def [symmetric] hi_def list_all_iff)
    have sw: "startAddress w = startAddress bl" and ew: "endAddress w = e"
      by (simp_all add: w_def widenedTo_def endAddress_def)
    have dk: "disjointRegions kept" unfolding kept_def by (rule disjointRegions_filter [OF d])
    have fk: "find (\<lambda>r. name r = BOOTLOADER) kept = Some bl"
      unfolding kept_def using Some by (simp add: find_filter_notNone)
    have "\<forall>k\<in>set kept. k \<noteq> bl \<longrightarrow> \<not> intersects k w"
    proof (intro ballI impI notI)
      fix k assume k: "k \<in> set kept" "k \<noteq> bl" and i: "intersects k w"
      from i have "overlapsSpan k (startAddress bl) hi"
        by (rule intersects_within_span) (simp_all add: sw ew e_hi)
      then show False using others k by (simp add: kept_def)
    qed
    from disjointRegions_replaceFirstBootloader [OF dk fk sw this]
    show ?thesis
      by (simp add: updateFileBlRegion_merge [OF Some scan] w_def kept_def)
  qed
qed

text \<open>
  Claim C3, as the code has it. Neither pass looks at the regions that lie between the
  ones it merges, so the reconciled sequence is not disjoint in general. It is when the
  regions handed to the reconciler are pairwise disjoint and nothing else reaches into the
  two merged spans: no region the application pass keeps holds an address of the span from
  the lowest start to the highest end of the APPLICATION fragments below the target's
  bootloader (\<open>appSpanFree\<close>), and, after that pass, no region other than the NONE
  regions and the bootloader itself holds an address of the span from the bootloader's
  start to the highest end of the qualifying NONE regions (\<open>blSpanFree\<close>). Then no two
  distinct regions of the reconciled sequence intersect.
\<close>

theorem reconcile_disjoint:
  assumes "disjointRegions fr"
    and "appSpanFree fr tr"
    and "blSpanFree (updateFileAppRegions fr tr) d"
  shows "disjointRegions (reconcile fr tr d)"
  unfolding reconcile_def
  by (rule updateFileBlRegion_disjoint [OF updateFileAppRegions_disjoint [OF assms(1,2)] assms(3)])

theorem reconcile_disjoint_witness:
  "disjointRegions
     [region APPLICATION ColorAPPLICATION 0x1000 0x2000,
      region APPLICATION ColorAPPLICATION 0x3000 0x4000,
      region BOOTLOADER ColorBOOTLOADER 0x7000 0x7100,
      region NONE ColorNONE 0x7100 0x7200]
   \<and> appSpanFree
     [region APPLICATION ColorAPPLICATION 0x1000 0x2000,
      region APPLICATION ColorAPPLICATION 0x3000 0x4000,
      region BOOTLOADER ColorBOOTLOADER 0x7000 0x7100,
      region NONE ColorNONE 0x7100 0x7200]
     [region BOOTLOADER ColorBOOTLOADER 0x7000 0x7100]
   \<and> blSpanFree
     (updateFileAppRegions
        [region APPLICATION ColorAPPLICATION 0x1000 0x2000,
         region APPLICATION ColorAPPLICATION 0x3000 0x4000,
         region BOOTLOADER ColorBOOTLOADER 0x7000 0x7100,
         region NONE ColorNONE 0x7100 0x7200]
        [region BOOTLOADER ColorBOOTLOADER 0x7000 0x7100])
     \<lparr>romSize = 0x8000, pageSize = 0x1000, uicrBaseAddr = 0x10001000\<rparr>
   \<and> disjointRegions
     (reconcile
        [region APPLICATION ColorAPPLICATION 0x1000 0x2000,
         region APPLICATION ColorAPPLICATION 0x3000 0x4000,
         region BOOTLOADER ColorBOOTLOADER 0x7000 0x7100,
         region NONE ColorNONE 0x7100 0x7200]
        [region BOOTLOADER ColorBOOTLOADER 0x7000 0x7100]
        \<lparr>romSize = 0x8000, pageSize = 0x1000, uicrBaseAddr = 0x10001000\<rparr>)"
proof -
  let ?fr = "[region APPLICATION ColorAPPLICATION 0x1000 0x2000,
      region APPLICATION ColorAPPLICATION 0x3000 0x4000,
      region BOOTLOADER ColorBOOTLOADER 0x7000 0x7100,
      region NONE ColorNONE 0x7100 0x7200]"
  let ?tr = "[region BOOTLOADER ColorBOOTLOADER 0x7000 0x7100]"
  let ?d = "\<lparr>romSize = 0x8000, pageSize = 0x1000, uicrBaseAddr = 0x10001000\<rparr>"
  have app: "updateFileAppRegions ?fr ?tr
      = [region BOOTLOADER ColorBOOTLOADER 0x7000 0x7100, region NONE ColorNONE 0x7100 0x7200,
         appRegion 0x1000 0x4000]"
    by (simp add: updateFileAppRegions_def appScan_def appScanStep_def undefOr_def region_def
                  appRemoveStep_def remove_at_def wrapIndex_def appRegion_def Let_def)
  have h1: "disjointRegions ?fr"
    by (simp add: disjointRegions_def intersects_def region_def endAddress_def)
  have h2: "appSpanFree ?fr ?tr"
    by (simp add: appSpanFree_def belowBootloader_def overlapsSpan_def region_def
                  endAddress_def Let_def)
  have h3: "blSpanFree (updateFileAppRegions ?fr ?tr) ?d"
    unfolding app
    by (simp add: blSpanFree_def qualifyingNone_def overlapsSpan_def region_def appRegion_def
                  endAddress_def Let_def)
  from reconcile_disjoint [OF h1 h2 h3] h1 h2 h3 show ?thesis by blast
qed

text \<open>
  The claim as the spec words it fails: two APPLICATION fragments with unclassified data
  between them are pairwise disjoint, and the merged APPLICATION region \<open>[0x1000, 0x4000)\<close>
  covers the NONE region \<open>[0x2000, 0x3000)\<close> that the pass keeps.
\<close>

theorem reconcile_disjoint_counterexample:
  "disjointRegions
     [region APPLICATION ColorAPPLICATION 0x1000 0x2000,
      region NONE ColorNONE 0x2000 0x3000,
      region APPLICATION ColorAPPLICATION 0x3000 0x4000]
   \<and> reconcile
        [region APPLICATION ColorAPPLICATION 0x1000 0x2000,
         region NONE ColorNONE 0x2000 0x3000,
         region APPLICATION ColorAPPLICATION 0x3000 0x4000]
        [region BOOTLOADER ColorBOOTLOADER 0x5000 0x6000]
        \<lparr>romSize = 0x8000, pageSize = 0x1000, uicrBaseAddr = 0x10001000\<rparr>
      = [region NONE ColorNONE 0x2000 0x3000, region APPLICATION ColorAPPLICATION 0x1000 0x4000]
   \<and> intersects (region NONE ColorNONE 0x2000 0x3000)
                 (region APPLICATION ColorAPPLICATION 0x1000 0x4000)
   \<and> \<not> disjointRegions
        (reconcile
           [region APPLICATION ColorAPPLICATION 0x1000 0x2000,
            region NONE ColorNONE 0x2000 0x3000,
            region APPLICATION ColorAPPLICATION 0x3000 0x4000]
           [region BOOTLOADER ColorBOOTLOADER 0x5000 0x6000]
           \<lparr>romSize = 0x8000, pageSize = 0x1000, uicrBaseAddr = 0x10001000\<rparr>)"
proof -
  let ?fr = "[region APPLICATION ColorAPPLICATION 0x1000 0x2000,
      region NONE ColorNONE 0x2000 0x3000,
      region APPLICATION ColorAPPLICATION 0x3000 0x4000]"
  let ?tr = "[region BOOTLOADER ColorBOOTLOADER 0x5000 0x6000]"
  let ?d = "\<lparr>romSize = 0x8000, pageSize = 0x1000, uicrBaseAddr = 0x10001000\<rparr>"
  have app: "updateFileAppRegions ?fr ?tr
      = [region NONE ColorNONE 0x2000 0x3000, region APPLICATION ColorAPPLICATION 0x1000 0x4000]"
    by (simp add: updateFileAppRegions_def appScan_def appScanStep_def undefOr_def region_def
                  appRemoveStep_def remove_at_def wrapIndex_def appRegion_def Let_def)
  have rec: "reconcile ?fr ?tr ?d
      = [region NONE ColorNONE 0x2000 0x3000, region APPLICATION ColorAPPLICATION 0x1000 0x4000]"
    unfolding reconcile_def app
    by (simp add: updateFileBlRegion_def region_def)
  have h1: "disjointRegions ?fr"
    by (simp add: disjointRegions_def intersects_def region_def endAddress_def)
  have i: "intersects (region NONE ColorNONE 0x2000 0x3000)
                 (region APPLICATION ColorAPPLICATION 0x1000 0x4000)"
    by (simp add: intersects_def region_def endAddress_def)
  have "\<not> disjointRegions (reconcile ?fr ?tr ?d)"
    unfolding rec using i by (simp add: disjointRegions_def)
  with h1 rec i show ?thesis by blast
qed

section \<open>The worked examples of the two passes\<close>

text \<open>
  Claim C4, as the code has it. Given the fragments APPLICATION \<open>[0x1000, 0x2000)\<close> and
  APPLICATION \<open>[0x3000, 0x4000)\<close> and a BOOTLOADER region \<open>[0x5000, 0x6000)\<close> among the
  regions of the target device, the application-merge pass yields exactly one APPLICATION
  region, and that region is \<open>[0x1000, 0x4000)\<close>: it starts at the lowest start and ends
  at the end of the highest fragment, so its size is \<open>0x3000\<close>. This holds whether or
  not the bootloader region is also one of the file's regions, and whatever the colours and
  file names of the three regions are.
\<close>

theorem updateFileAppRegions_example:
  "updateFileAppRegions
     [\<lparr>name = APPLICATION, startAddress = 0x1000, regionSize = 0x1000, color = c1, fileNames = f1\<rparr>,
      \<lparr>name = APPLICATION, startAddress = 0x3000, regionSize = 0x1000, color = c2, fileNames = f2\<rparr>]
     [\<lparr>name = BOOTLOADER, startAddress = 0x5000, regionSize = 0x1000, color = c3, fileNames = f3\<rparr>]
   = [appRegion 0x1000 0x4000]
   \<and> updateFileAppRegions
     [\<lparr>name = APPLICATION, startAddress = 0x1000, regionSize = 0x1000, color = c1, fileNames = f1\<rparr>,
      \<lparr>name = APPLICATION, startAddress = 0x3000, regionSize = 0x1000, color = c2, fileNames = f2\<rparr>,
      \<lparr>name = BOOTLOADER, startAddress = 0x5000, regionSize = 0x1000, color = c3, fileNames = f3\<rparr>]
     [\<lparr>name = BOOTLOADER, startAddress = 0x5000, regionSize = 0x1000, color = c3, fileNames = f3\<rparr>]
   = [\<lparr>name = BOOTLOADER, startAddress = 0x5000, regionSize = 0x1000, color = c3, fileNames = f3\<rparr>,
      appRegion 0x1000 0x4000]
   \<and> name (appRegion 0x1000 0x4000) = APPLICATION
   \<and> startAddress (appRegion 0x1000 0x4000) = 0x1000
   \<and> endAddress (appRegion 0x1000 0x4000) = 0x4000
   \<and> regionSize (appRegion 0x1000 0x4000) = 0x3000"
  by (simp add: updateFileAppRegions_def appScan_def appScanStep_def undefOr_def
                appRemoveStep_def remove_at_def wrapIndex_def appRegion_def endAddress_def Let_def)

text \<open>
  The claim as the spec words it fails: the one APPLICATION region the pass leaves does
  not span \<open>[0x1000, 0x3000)\<close>.
\<close>

theorem updateFileAppRegions_example_counterexample:
  "map (\<lambda>r. (startAddress r, endAddress r))
     (filter (\<lambda>r. name r = APPLICATION)
        (updateFileAppRegions
           [region APPLICATION ColorAPPLICATION 0x1000 0x2000,
            region APPLICATION ColorAPPLICATION 0x3000 0x4000,
            region BOOTLOADER ColorBOOTLOADER 0x5000 0x6000]
           [region BOOTLOADER ColorBOOTLOADER 0x5000 0x6000]))
   = [(0x1000, 0x4000)]
   \<and> [(0x1000, 0x4000)] \<noteq> [(0x1000 :: int, 0x3000 :: int)]"
  by (simp add: updateFileAppRegions_def appScan_def appScanStep_def undefOr_def region_def
                appRemoveStep_def remove_at_def wrapIndex_def appRegion_def endAddress_def Let_def)

text \<open>
  Claim C5. Given exactly the regions BOOTLOADER \<open>[0x7000, 0x7100)\<close> and NONE
  \<open>[0x7100, 0x7200)\<close>, in either order, and a device with \<open>romSize = 0x8000\<close>, the
  bootloader-merge pass widens the BOOTLOADER region to \<open>[0x7000, 0x7200)\<close> (size
  \<open>0x200\<close>) and removes the NONE region; colours, file names and the other device
  fields do not matter.
\<close>

theorem updateFileBlRegion_example:
  "updateFileBlRegion
     [\<lparr>name = BOOTLOADER, startAddress = 0x7000, regionSize = 0x100, color = c1, fileNames = f1\<rparr>,
      \<lparr>name = NONE, startAddress = 0x7100, regionSize = 0x100, color = c2, fileNames = f2\<rparr>]
     \<lparr>romSize = 0x8000, pageSize = p, uicrBaseAddr = u\<rparr>
   = [\<lparr>name = BOOTLOADER, startAddress = 0x7000, regionSize = 0x200, color = c1, fileNames = f1\<rparr>]
   \<and> updateFileBlRegion
     [\<lparr>name = NONE, startAddress = 0x7100, regionSize = 0x100, color = c2, fileNames = f2\<rparr>,
      \<lparr>name = BOOTLOADER, startAddress = 0x7000, regionSize = 0x100, color = c1, fileNames = f1\<rparr>]
     \<lparr>romSize = 0x8000, pageSize = p, uicrBaseAddr = u\<rparr>
   = [\<lparr>name = BOOTLOADER, startAddress = 0x7000, regionSize = 0x200, color = c1, fileNames = f1\<rparr>]
   \<and> endAddress
        \<lparr>name = BOOTLOADER, startAddress = 0x7000, regionSize = 0x200, color = c1, fileNames = f1\<rparr>
      = 0x7200"
  by (simp add: updateFileBlRegion_def blScan_def blScanStep_def undefOr_def
                blRemoveStep_def remove_at_def set_at_def wrapIndex_def endAddress_def Let_def)

section \<open>Running the reconciler twice\<close>

text \<open>
  Claim C6. For every region sequence, every list of target regions and every device
  metadata, running the two passes (\<open>updateFileAppRegions\<close>, then \<open>updateFileBlRegion\<close>)
  on their own output gives that output again.
\<close>

theorem reconcile_idempotent:
  "reconcile (reconcile fr tr d) tr d = reconcile fr tr d"
proof -
  have "reconcile (reconcile fr tr d) tr d
          = updateFileBlRegion
              (updateFileAppRegions (updateFileBlRegion (updateFileAppRegions fr tr) d) tr) d"
    by (simp add: reconcile_def)
  also have "\<dots> = updateFileBlRegion
                     (updateFileBlRegion (updateFileAppRegions (updateFileAppRegions fr tr) tr) d) d"
    by (simp only: passes_commute)
  also have "\<dots> = updateFileBlRegion (updateFileAppRegions fr tr) d"
    by (simp only: updateFileAppRegions_idem updateFileBlRegion_idem)
  finally show ?thesis by (simp add: reconcile_def)
qed

section \<open>Rendering an address\<close>

lemma below_sixteen:
  "d < (16::nat) \<Longrightarrow>
     d = 0 \<or> d = 1 \<or> d = 2 \<or> d = 3 \<or> d = 4 \<or> d = 5 \<or> d = 6 \<or> d = 7 \<or> d = 8 \<or> d = 9
     \<or> d = 10 \<or> d = 11 \<or> d = 12 \<or> d = 13 \<or> d = 14 \<or> d = 15"
  by arith

lemma digitValue_hexDigit: "d < 16 \<Longrightarrow> digitValue (hexDigit d) = Some d"
  by (drule below_sixteen) (auto simp: digitValue_def hexDigit_def)

lemma hexDigit_mem: "d < 16 \<Longrightarrow> hexDigit d \<in> set ''0123456789ABCDEF''"
  unfolding hexDigit_def by (rule nth_mem) simp

lemma hexValue_snoc: "hexValue (s @ [c]) = hexValueStep (hexValue s) c"
  by (simp add: hexValue_def)

text \<open>A string with a character that is no hexadecimal digit denotes nothing.\<close>

lemma hexValue_rejects_other_characters: "hexValue ''0000000G'' = None"
  by (simp add: hexValue_def hexValueStep_def digitValue_def)

lemma hexValue_hexDigits: "hexValue (hexDigits n) = Some n"
proof (induction n rule: hexDigits.induct)
  case (1 n)
  show ?case
  proof (cases "n < 16")
    case True
    then show ?thesis
      by (subst hexDigits.simps) (simp add: hexValue_def hexValueStep_def digitValue_hexDigit)
  next
    case False
    have "hexValue (hexDigits n)
            = hexValueStep (hexValue (hexDigits (n div 16))) (hexDigit (n mod 16))"
      using False by (subst hexDigits.simps) (simp add: hexValue_snoc)
    also have "\<dots> = Some (16 * (n div 16) + n mod 16)"
      using "1.IH" [OF False] by (simp add: hexValueStep_def digitValue_hexDigit)
    finally show ?thesis by simp
  qed
qed

lemma hexDigits_set: "set (hexDigits n) \<subseteq> set ''0123456789ABCDEF''"
proof (induction n rule: hexDigits.induct)
  case (1 n)
  show ?case
  proof (cases "n < 16")
    case True
    then show ?thesis using hexDigit_mem [of n] by (subst hexDigits.simps) simp
  next
    case False
    have "n mod 16 < 16" by simp
    then show ?thesis
      using False "1.IH" [OF False] hexDigit_mem [of "n mod 16"]
      by (subst hexDigits.simps) simp
  qed
qed

lemma hexDigits_length: "0 < k \<Longrightarrow> n < 16 ^ k \<Longrightarrow> length (hexDigits n) \<le> k"
proof (induction n arbitrary: k rule: hexDigits.induct)
  case (1 n)
  show ?case
  proof (cases "n < 16")
    case True
    then show ?thesis using "1.prems" by (subst hexDigits.simps) simp
  next
    case False
    obtain j where k: "k = Suc j" using "1.prems"(1) by (cases k) auto
    have j0: "0 < j"
    proof (rule ccontr)
      assume "\<not> 0 < j"
      then have "k = 1" using k by simp
      then show False using "1.prems"(2) False by simp
    qed
    have "n div 16 < 16 ^ j" using "1.prems"(2) k by (simp add: less_mult_imp_div_less mult.commute)
    from "1.IH" [OF False j0 this] show ?thesis
      using False k by (subst hexDigits.simps) simp
  qed
qed

lemma digitValue_zero: "digitValue CHR ''0'' = Some 0"
  by (simp add: digitValue_def)

lemma hexValue_zeros: "hexValue (replicate m CHR ''0'' @ s) = hexValue s"
proof -
  have "foldl hexValueStep (Some 0) (replicate m CHR ''0'') = Some 0"
    by (induction m) (simp_all add: hexValueStep_def digitValue_zero)
  then show ?thesis by (simp add: hexValue_def)
qed

lemma hexpad8_length: "0 \<le> n \<Longrightarrow> n < 2 ^ 32 \<Longrightarrow> length (hexpad8 n) = 8"
proof -
  assume "0 \<le> n" "n < 2 ^ 32"
  then have "nat n < 16 ^ 8" by (simp add: nat_less_iff)
  then have "length (hexDigits (nat n)) \<le> 8" by (intro hexDigits_length) simp_all
  then show ?thesis by (simp add: hexpad8_def Let_def)
qed

lemma hexpad8_min_length: "8 \<le> length (hexpad8 n)"
  by (simp add: hexpad8_def Let_def)

lemma hexpad8_value: "hexValue (hexpad8 n) = Some (nat n)"
  by (simp add: hexpad8_def Let_def hexValue_zeros hexValue_hexDigits)

lemma hexpad8_set: "set (hexpad8 n) \<subseteq> set ''0123456789ABCDEF''"
  using hexDigits_set [of "nat n"] by (auto simp: hexpad8_def Let_def)

section \<open>Blocks outside the writable area\<close>

lemma outsideFlashBlocks_fold:
  assumes "\<forall>entry\<in>set overlaps. snd entry \<noteq> []"
  shows "foldl (outsideFlashStep dev) (Some acc) overlaps
           = Some (acc @ map renderBlock
                (filter (\<lambda>entry. outsideFlash dev (fst entry) (blockEnd entry)) overlaps))"
  using assms
proof (induction overlaps arbitrary: acc)
  case Nil
  then show ?case by simp
next
  case (Cons entry overlaps)
  from Cons.prems obtain first rest where ov: "snd entry = first # rest"
    by (cases "snd entry") auto
  have rest: "\<forall>entry\<in>set overlaps. snd entry \<noteq> []" using Cons.prems by simp
  show ?case
  proof (cases "outsideFlash dev (fst entry) (blockEnd entry)")
    case True
    then have "outsideFlashStep dev (Some acc) entry = Some (acc @ [renderBlock entry])"
      by (simp add: outsideFlashStep_def ov Let_def blockEnd_def renderBlock_def)
    then show ?thesis using True Cons.IH [OF rest] by simp
  next
    case False
    then have "outsideFlashStep dev (Some acc) entry = Some acc"
      by (simp add: outsideFlashStep_def ov Let_def blockEnd_def)
    then show ?thesis using False Cons.IH [OF rest] by simp
  qed
qed

text \<open>
  The block \<open>[romSize - 0x10, romSize + 0x10)\<close> passes the test of lines 245-246 on a
  device whose UICR page starts above \<open>romSize - 0x10\<close>, by the first branch, and on a
  device whose ROM size and UICR base are multiples of its page size, by whichever
  branch applies: a UICR page that starts inside the ROM then also ends inside it.
\<close>

lemma edge_block_outsideFlash:
  assumes "romSize dev - 0x10 < uicrBaseAddr dev
           \<or> (0 < pageSize dev \<and> pageSize dev dvd romSize dev
               \<and> pageSize dev dvd uicrBaseAddr dev)"
  shows "outsideFlash dev (romSize dev - 0x10) (romSize dev + 0x10)"
proof (cases "romSize dev - 0x10 < uicrBaseAddr dev")
  case True
  then show ?thesis by (simp add: outsideFlash_def)
next
  case False
  with assms have pos: "0 < pageSize dev" and d1: "pageSize dev dvd romSize dev"
    and d2: "pageSize dev dvd uicrBaseAddr dev" by simp_all
  have lt: "0 < romSize dev - uicrBaseAddr dev" using False by simp
  have "pageSize dev dvd romSize dev - uicrBaseAddr dev" using d1 d2 by (rule dvd_diff)
  then have "pageSize dev \<le> romSize dev - uicrBaseAddr dev" using lt by (rule zdvd_imp_le)
  then show ?thesis using False by (simp add: outsideFlash_def)
qed

lemma renderBlock_shape:
  "renderBlock entry = hexpad8 (fst entry) @ ''-'' @ hexpad8 (blockEnd entry)
   \<and> set (hexpad8 (fst entry)) \<subseteq> set ''0123456789ABCDEF''
   \<and> set (hexpad8 (blockEnd entry)) \<subseteq> set ''0123456789ABCDEF''
   \<and> hexValue (hexpad8 (fst entry)) = Some (nat (fst entry))
   \<and> hexValue (hexpad8 (blockEnd entry)) = Some (nat (blockEnd entry))
   \<and> 8 \<le> length (hexpad8 (fst entry))
   \<and> 8 \<le> length (hexpad8 (blockEnd entry))
   \<and> (0 \<le> fst entry \<and> blockEnd entry < 2 ^ 32 \<longrightarrow>
        length (hexpad8 (fst entry)) = 8 \<and> length (hexpad8 (blockEnd entry)) = 8
        \<and> length (renderBlock entry) = 17)"
proof -
  have len: "fst entry \<le> blockEnd entry" by (simp add: blockEnd_def)
  have eight: "length (hexpad8 (fst entry)) = 8 \<and> length (hexpad8 (blockEnd entry)) = 8
        \<and> length (renderBlock entry) = 17"
    if "0 \<le> fst entry" "blockEnd entry < 2 ^ 32"
  proof -
    have l1: "length (hexpad8 (fst entry)) = 8" using that len by (intro hexpad8_length) simp_all
    have l2: "length (hexpad8 (blockEnd entry)) = 8"
      using that len by (intro hexpad8_length) simp_all
    show ?thesis by (simp add: renderBlock_def l1 l2)
  qed
  show ?thesis
    using eight hexpad8_set [of "fst entry"] hexpad8_set [of "blockEnd entry"]
    by (simp add: renderBlock_def hexpad8_value hexpad8_min_length)
qed

text \<open>
  Claim C7. For overlaps whose entries each hold at least one \<^verbatim>\<open>[fileName, bytes]\<close>
  pair, the blocks the thunk reports are, in order, exactly the covered blocks
  \<open>[startAddress, endAddress)\<close> with \<open>startAddress < uicrBaseAddr\<close> and
  \<open>endAddress > romSize\<close>, or \<open>startAddress \<ge> uicrBaseAddr\<close> and
  \<open>endAddress > uicrBaseAddr + pageSize\<close>; the warning is dispatched when there is such a
  block and lists them. In particular a covered block \<open>[romSize - 0x10, romSize + 0x10)\<close>
  is reported, on every device whose UICR page starts above \<open>romSize - 0x10\<close> (as it does
  when the UICR lies above the ROM) and on every device whose ROM size and UICR base are
  multiples of its page size. Each block is rendered as its start, \<open>-\<close>, its end, each
  address as hexadecimal digits only, denoting the address and zero-padded to eight
  digits: never fewer than eight, and exactly eight for every address below \<open>2^32\<close>, so
  that the string then has 17 characters.
\<close>

theorem outsideFlashBlocks_report:
  assumes "\<forall>entry\<in>set overlaps. snd entry \<noteq> []"
  shows "\<exists>blocks.
       outsideFlashBlocks dev overlaps = Some blocks
     \<and> blocks = map renderBlock
         (filter (\<lambda>entry. (fst entry < uicrBaseAddr dev \<and> blockEnd entry > romSize dev)
                        \<or> (fst entry \<ge> uicrBaseAddr dev
                            \<and> blockEnd entry > uicrBaseAddr dev + pageSize dev))
            overlaps)
     \<and> outsideFlashWarning dev overlaps
         = Some (if blocks = [] then None
                 else Some (''There is data outside the user-writable areas (''
                              @ join '', '' blocks @ '').''))
     \<and> (\<forall>entry\<in>set overlaps.
           fst entry = romSize dev - 0x10 \<and> blockEnd entry = romSize dev + 0x10
           \<and> (romSize dev - 0x10 < uicrBaseAddr dev
                \<or> (0 < pageSize dev \<and> pageSize dev dvd romSize dev
                    \<and> pageSize dev dvd uicrBaseAddr dev))
           \<longrightarrow> renderBlock entry \<in> set blocks)
     \<and> (\<forall>entry\<in>set overlaps.
           renderBlock entry = hexpad8 (fst entry) @ ''-'' @ hexpad8 (blockEnd entry)
           \<and> set (hexpad8 (fst entry)) \<subseteq> set ''0123456789ABCDEF''
           \<and> set (hexpad8 (blockEnd entry)) \<subseteq> set ''0123456789ABCDEF''
           \<and> hexValue (hexpad8 (fst entry)) = Some (nat (fst entry))
           \<and> hexValue (hexpad8 (blockEnd entry)) = Some (nat (blockEnd entry))
           \<and> 8 \<le> length (hexpad8 (fst entry))
           \<and> 8 \<le> length (hexpad8 (blockEnd entry))
           \<and> (0 \<le> fst entry \<and> blockEnd entry < 2 ^ 32 \<longrightarrow>
                length (hexpad8 (fst entry)) = 8 \<and> length (hexpad8 (blockEnd entry)) = 8
                \<and> length (renderBlock entry) = 17))"
proof -
  define flagged where "flagged = (\<lambda>entry :: int \<times> overlap.
      (fst entry < uicrBaseAddr dev \<and> blockEnd entry > romSize dev)
      \<or> (fst entry \<ge> uicrBaseAddr dev \<and> blockEnd entry > uicrBaseAddr dev + pageSize dev))"
  define blocks where "blocks = map renderBlock (filter flagged overlaps)"
  have fl: "(\<lambda>entry. outsideFlash dev (fst entry) (blockEnd entry)) = flagged"
    by (intro ext) (simp add: outsideFlash_def flagged_def)
  have b: "outsideFlashBlocks dev overlaps = Some blocks"
    using outsideFlashBlocks_fold [OF assms, of dev "[]"]
    by (simp add: outsideFlashBlocks_def blocks_def fl)
  have w: "outsideFlashWarning dev overlaps
         = Some (if blocks = [] then None
                 else Some (''There is data outside the user-writable areas (''
                              @ join '', '' blocks @ '').''))"
    by (simp add: outsideFlashWarning_def b)
  have p: "\<forall>entry\<in>set overlaps.
           fst entry = romSize dev - 0x10 \<and> blockEnd entry = romSize dev + 0x10
           \<and> (romSize dev - 0x10 < uicrBaseAddr dev
                \<or> (0 < pageSize dev \<and> pageSize dev dvd romSize dev
                    \<and> pageSize dev dvd uicrBaseAddr dev))
           \<longrightarrow> renderBlock entry \<in> set blocks"
  proof (intro ballI impI)
    fix entry
    assume mem: "entry \<in> set overlaps"
      and h: "fst entry = romSize dev - 0x10 \<and> blockEnd entry = romSize dev + 0x10
           \<and> (romSize dev - 0x10 < uicrBaseAddr dev
                \<or> (0 < pageSize dev \<and> pageSize dev dvd romSize dev
                    \<and> pageSize dev dvd uicrBaseAddr dev))"
    then have "outsideFlash dev (romSize dev - 0x10) (romSize dev + 0x10)"
      by (intro edge_block_outsideFlash) simp
    then have "outsideFlash dev (fst entry) (blockEnd entry)" using h by simp
    then have "flagged entry" by (simp add: outsideFlash_def flagged_def)
    then show "renderBlock entry \<in> set blocks" using mem by (simp add: blocks_def)
  qed
  have r: "\<forall>entry\<in>set overlaps.
           renderBlock entry = hexpad8 (fst entry) @ ''-'' @ hexpad8 (blockEnd entry)
           \<and> set (hexpad8 (fst entry)) \<subseteq> set ''0123456789ABCDEF''
           \<and> set (hexpad8 (blockEnd entry)) \<subseteq> set ''0123456789ABCDEF''
           \<and> hexValue (hexpad8 (fst entry)) = Some (nat (fst entry))
           \<and> hexValue (hexpad8 (blockEnd entry)) = Some (nat (blockEnd entry))
           \<and> 8 \<le> length (hexpad8 (fst entry))
           \<and> 8 \<le> length (hexpad8 (blockEnd entry))
           \<and> (0 \<le> fst entry \<and> blockEnd entry < 2 ^ 32 \<longrightarrow>
                length (hexpad8 (fst entry)) = 8 \<and> length (hexpad8 (blockEnd entry)) = 8
                \<and> length (renderBlock entry) = 17)"
    using renderBlock_shape by blast
  show ?thesis
    using b w p r unfolding blocks_def flagged_def by blast
qed

lemma hexpad8_7FF0: "hexpad8 0x7FF0 = ''00007FF0''"
proof -
  have "hexDigits 0x7FF0 = ''7FF0''" by (simp add: hexDigits.simps hexDigit_def)
  moreover have "replicate 4 CHR ''0'' = ''0000''" by (simp add: numeral_eq_Suc)
  ultimately show ?thesis by (simp add: hexpad8_def Let_def)
qed

lemma hexpad8_8010: "hexpad8 0x8010 = ''00008010''"
proof -
  have "hexDigits 0x8010 = ''8010''" by (simp add: hexDigits.simps hexDigit_def)
  moreover have "replicate 4 CHR ''0'' = ''0000''" by (simp add: numeral_eq_Suc)
  ultimately show ?thesis by (simp add: hexpad8_def Let_def)
qed

theorem outsideFlashBlocks_report_witness:
  "snd (0x7FF0 :: int, [(''app.hex'', replicate 0x20 (0 :: 8 word))]) \<noteq> []
   \<and> outsideFlashBlocks \<lparr>romSize = 0x8000, pageSize = 0x1000, uicrBaseAddr = 0x10001000\<rparr>
        [(0x7FF0, [(''app.hex'', replicate 0x20 0)])]
      = Some [''00007FF0-00008010'']
   \<and> outsideFlashWarning \<lparr>romSize = 0x8000, pageSize = 0x1000, uicrBaseAddr = 0x10001000\<rparr>
        [(0x7FF0, [(''app.hex'', replicate 0x20 0)])]
      = Some (Some ''There is data outside the user-writable areas (00007FF0-00008010).'')"
proof -
  let ?dev = "\<lparr>romSize = 0x8000, pageSize = 0x1000, uicrBaseAddr = 0x10001000\<rparr>"
  let ?e = "(0x7FF0 :: int, [(''app.hex'', replicate 0x20 (0 :: 8 word))])"
  have h: "\<forall>entry\<in>set [?e]. snd entry \<noteq> []" by simp
  have e: "blockEnd ?e = 0x8010" by (simp add: blockEnd_def)
  have rb: "renderBlock ?e = ''00007FF0-00008010''"
    by (simp add: renderBlock_def e hexpad8_7FF0 hexpad8_8010)
  from outsideFlashBlocks_report [OF h, of ?dev] obtain blocks where
    b: "outsideFlashBlocks ?dev [?e] = Some blocks" and
    w: "outsideFlashWarning ?dev [?e]
         = Some (if blocks = [] then None
                 else Some (''There is data outside the user-writable areas (''
                              @ join '', '' blocks @ '').''))" and
    p: "\<forall>entry\<in>set [?e].
           fst entry = romSize ?dev - 0x10 \<and> blockEnd entry = romSize ?dev + 0x10
           \<and> (romSize ?dev - 0x10 < uicrBaseAddr ?dev
                \<or> (0 < pageSize ?dev \<and> pageSize ?dev dvd romSize ?dev
                    \<and> pageSize ?dev dvd uicrBaseAddr ?dev))
           \<longrightarrow> renderBlock entry \<in> set blocks" and
    bl: "blocks = map renderBlock
         (filter (\<lambda>entry. (fst entry < uicrBaseAddr ?dev \<and> blockEnd entry > romSize ?dev)
                        \<or> (fst entry \<ge> uicrBaseAddr ?dev
                            \<and> blockEnd entry > uicrBaseAddr ?dev + pageSize ?dev))
            [?e])"
    by blast
  have "renderBlock ?e \<in> set blocks" using p e by simp
  moreover have "length blocks \<le> 1" unfolding bl by simp
  ultimately have "blocks = [''00007FF0-00008010'']"
    unfolding rb by (cases blocks) auto
  with b w show ?thesis by simp
qed

section \<open>Loading a file that is already loaded\<close>

text \<open>
  Claim C8, as the code has it. The thunk starts with \<^verbatim>\<open>if (loaded[filePath]) return\<close>:
  for a path that is already a key of the loaded map it resolves at once, with no error
  raised or shown (the code has no DuplicateKeyError), no action dispatched, so that the
  loaded map and the memMaps sequence of the store stay as they were, and nothing written
  to the most-recently-used list.
\<close>

theorem parseOneFile_already_loaded:
  assumes "loaded st filePath = Some entry"
  shows "parseOneFile env filePath st mruFiles = (Resolved, [], mruFiles)"
  using assms by (simp add: parseOneFile_def)

theorem parseOneFile_already_loaded_witness:
  "loaded \<lparr>loaded = [''a.hex'' \<mapsto> \<lparr>filename = ''a.hex'', modTime = 1, loadTime = 2,
                                      memMap = [(0, [1, 2])]\<rparr>],
           memMaps = [(''a.hex'', [(0, [1, 2])])]\<rparr> ''a.hex''
     = Some \<lparr>filename = ''a.hex'', modTime = 1, loadTime = 2, memMap = [(0, [1, 2])]\<rparr>
   \<and> parseOneFile
       \<lparr>statResult = Inr 3, readResult = Inr '':00000001FF'',
        fromHex = (\<lambda>_. Inr []), basename = (\<lambda>p. p), now = 4\<rparr>
       ''a.hex''
       \<lparr>loaded = [''a.hex'' \<mapsto> \<lparr>filename = ''a.hex'', modTime = 1, loadTime = 2,
                                  memMap = [(0, [1, 2])]\<rparr>],
        memMaps = [(''a.hex'', [(0, [1, 2])])]\<rparr>
       [''b.hex'']
     = (Resolved, [], [''b.hex''])"
proof -
  have h: "loaded \<lparr>loaded = [''a.hex'' \<mapsto> \<lparr>filename = ''a.hex'', modTime = 1, loadTime = 2,
                                      memMap = [(0, [1, 2])]\<rparr>],
           memMaps = [(''a.hex'', [(0, [1, 2])])]\<rparr> ''a.hex''
     = Some \<lparr>filename = ''a.hex'', modTime = 1, loadTime = 2, memMap = [(0, [1, 2])]\<rparr>"
    by simp
  from parseOneFile_already_loaded [OF h] h show ?thesis by blast
qed

text \<open>
  The claim as the spec words it fails: loading the path again does not fail. The promise
  resolves and no error action is dispatched.
\<close>

theorem parseOneFile_duplicate_counterexample:
  "parseOneFile
       \<lparr>statResult = Inr 3, readResult = Inr '':00000001FF'',
        fromHex = (\<lambda>_. Inr []), basename = (\<lambda>p. p), now = 4\<rparr>
       ''a.hex''
       \<lparr>loaded = [''a.hex'' \<mapsto> \<lparr>filename = ''a.hex'', modTime = 1, loadTime = 2,
                                  memMap = [(0, [1, 2])]\<rparr>],
        memMaps = [(''a.hex'', [(0, [1, 2])])]\<rparr>
       []
     = (Resolved, [], [])
   \<and> Resolved \<noteq> Rejected"
  by (simp add: parseOneFile_def)

section \<open>Insertion into the most-recently-used list\<close>

text \<open>
  Claim C9, as the code has it. \<^verbatim>\<open>addMruFile\<close> changes the list only when the path is
  not in it. For a path that is not in the prior list, the list afterwards is the path
  followed by the first nine prior entries: at most 10 paths, the inserted path first and
  exactly once. For a path that is already in the prior list, the list is left exactly as
  it was: the path keeps its place and nothing is cut.
\<close>

theorem addMruFile_result:
  "(path \<notin> set files \<longrightarrow>
      addMruFile path files = path # take 9 files
      \<and> length (addMruFile path files) \<le> 10
      \<and> hd (addMruFile path files) = path
      \<and> count_list (addMruFile path files) path = 1)
   \<and> (path \<in> set files \<longrightarrow> addMruFile path files = files)"
proof (intro conjI impI)
  assume absent: "path \<notin> set files"
  then show eq: "addMruFile path files = path # take 9 files"
    by (simp add: addMruFile_def indexOf_takeWhile)
  show "length (addMruFile path files) \<le> 10" by (simp add: eq)
  show "hd (addMruFile path files) = path" by (simp add: eq)
  have "path \<notin> set (take 9 files)" using absent by (auto dest: in_set_takeD)
  then have "count_list (take 9 files) path = 0" by (simp add: count_list_0_iff)
  then show "count_list (addMruFile path files) path = 1" by (simp add: eq)
next
  assume "path \<in> set files"
  then show "addMruFile path files = files"
    by (simp add: addMruFile_def indexOf_takeWhile)
qed

theorem addMruFile_result_witness:
  "''c.hex'' \<notin> set [''a.hex'', ''b.hex'']
   \<and> addMruFile ''c.hex'' [''a.hex'', ''b.hex''] = [''c.hex'', ''a.hex'', ''b.hex'']
   \<and> ''b.hex'' \<in> set [''a.hex'', ''b.hex'']
   \<and> addMruFile ''b.hex'' [''a.hex'', ''b.hex''] = [''a.hex'', ''b.hex'']"
proof -
  have h1: "''c.hex'' \<notin> set [''a.hex'', ''b.hex'']" by simp
  have h2: "''b.hex'' \<in> set [''a.hex'', ''b.hex'']" by simp
  from addMruFile_result [of "''c.hex''" "[''a.hex'', ''b.hex'']"] h1
  have r1: "addMruFile ''c.hex'' [''a.hex'', ''b.hex''] = ''c.hex'' # take 9 [''a.hex'', ''b.hex'']"
    by blast
  from addMruFile_result [of "''b.hex''" "[''a.hex'', ''b.hex'']"] h2
  have r2: "addMruFile ''b.hex'' [''a.hex'', ''b.hex''] = [''a.hex'', ''b.hex'']"
    by blast
  show ?thesis using h1 h2 r1 r2 by simp
qed

text \<open>
  The claim as the spec words it fails: inserting a path that is already in the list, but
  not first, leaves it where it was.
\<close>

theorem addMruFile_counterexample:
  "addMruFile ''b.hex'' [''a.hex'', ''b.hex''] = [''a.hex'', ''b.hex'']
   \<and> hd (addMruFile ''b.hex'' [''a.hex'', ''b.hex'']) \<noteq> ''b.hex''"
  by (simp add: addMruFile_def)

section \<open>Flagging an MCUBoot firmware file\<close>

lemma mcuboot_dispatches:
  "foldl (mcubootStep filePath) acc blocks
     = acc @ map (\<lambda>_. McubootFileKnown (Some filePath))
               (filter (\<lambda>entry. fst entry = MCUBOOT_FW_START_ADDRESS) blocks)"
  by (induction blocks arbitrary: acc) (simp_all add: mcubootStep_def)

text \<open>
  Claim C10. When a file is parsed successfully (its path is not loaded yet, \<^verbatim>\<open>stat\<close>
  and \<^verbatim>\<open>readFile\<close> succeed and \<^verbatim>\<open>MemoryMap.fromHex\<close> gives a memory map), the action
  \<^verbatim>\<open>mcubootFileKnownAction(filePath)\<close> is among the dispatched actions if and only if the
  memory map has a block whose start address is \<open>0xC000\<close>; and no
  \<^verbatim>\<open>mcubootFileKnownAction\<close> for anything else is dispatched.
\<close>

theorem parseOneFile_mcuboot:
  assumes "loaded st filePath = None"
    and "statResult env = Inr mtime"
    and "readResult env = Inr content"
    and "fromHex env content = Inr memMap'"
  shows "(McubootFileKnown (Some filePath) \<in> set (fst (snd (parseOneFile env filePath st mruFiles)))
            \<longleftrightarrow> (\<exists>block. (0xC000, block) \<in> set memMap'))
       \<and> (\<forall>p. McubootFileKnown p \<in> set (fst (snd (parseOneFile env filePath st mruFiles)))
            \<longrightarrow> p = Some filePath)"
proof -
  have acts: "fst (snd (parseOneFile env filePath st mruFiles))
      = map (\<lambda>_. McubootFileKnown (Some filePath))
            (filter (\<lambda>entry. fst entry = MCUBOOT_FW_START_ADDRESS) memMap')
        @ [FileParse ((loaded st)(filePath \<mapsto>
                 \<lparr>filename = basename env filePath, modTime = mtime,
                  loadTime = now env, memMap = memMap'\<rparr>))
             (memMaps st @ [(filePath, memMap')]),
           UpdateFileRegions, UpdateTargetWritable]"
    using assms by (simp add: parseOneFile_def Let_def mcuboot_dispatches)
  define F where "F = filter (\<lambda>entry. fst entry = MCUBOOT_FW_START_ADDRESS) memMap'"
  have key: "F \<noteq> [] \<longleftrightarrow> (\<exists>block. (0xC000, block) \<in> set memMap')"
    unfolding F_def by (force simp: filter_empty_conv MCUBOOT_FW_START_ADDRESS_def)
  have setF: "set (map (\<lambda>_. McubootFileKnown (Some filePath)) F)
                = (if F = [] then {} else {McubootFileKnown (Some filePath)})"
    by (cases F) auto
  have "set (fst (snd (parseOneFile env filePath st mruFiles)))
          = (if F = [] then {} else {McubootFileKnown (Some filePath)})
            \<union> {FileParse ((loaded st)(filePath \<mapsto>
                 \<lparr>filename = basename env filePath, modTime = mtime,
                  loadTime = now env, memMap = memMap'\<rparr>))
                 (memMaps st @ [(filePath, memMap')]),
               UpdateFileRegions, UpdateTargetWritable}"
    unfolding acts F_def [symmetric] using setF by simp
  then show ?thesis using key by auto
qed

theorem parseOneFile_mcuboot_witness:
  "loaded \<lparr>loaded = Map.empty, memMaps = []\<rparr> ''mcuboot.hex'' = None
   \<and> statResult \<lparr>statResult = Inr 3, readResult = Inr '':00000001FF'',
        fromHex = (\<lambda>_. Inr [(0xC000, [1, 2])]), basename = (\<lambda>p. p), now = 4\<rparr> = Inr 3
   \<and> McubootFileKnown (Some ''mcuboot.hex'')
       \<in> set (fst (snd (parseOneFile
            \<lparr>statResult = Inr 3, readResult = Inr '':00000001FF'',
             fromHex = (\<lambda>_. Inr [(0xC000, [1, 2])]), basename = (\<lambda>p. p), now = 4\<rparr>
            ''mcuboot.hex'' \<lparr>loaded = Map.empty, memMaps = []\<rparr> [])))
   \<and> (\<exists>block. (0xC000, block) \<in> set [(0xC000 :: int, [1, 2 :: 8 word])])"
proof -
  let ?env = "\<lparr>statResult = Inr 3, readResult = Inr '':00000001FF'',
        fromHex = (\<lambda>_. Inr [(0xC000, [1, 2])]), basename = (\<lambda>p. p), now = 4\<rparr>"
  let ?st = "\<lparr>loaded = Map.empty, memMaps = []\<rparr>"
  have h1: "loaded ?st ''mcuboot.hex'' = None" by simp
  have h2: "statResult ?env = Inr 3" by simp
  have h3: "readResult ?env = Inr '':00000001FF''" by simp
  have h4: "fromHex ?env '':00000001FF'' = Inr [(0xC000, [1, 2])]" by simp
  have ex: "\<exists>block. (0xC000, block) \<in> set [(0xC000 :: int, [1, 2 :: 8 word])]" by simp
  from parseOneFile_mcuboot [OF h1 h2 h3 h4, of "[]"] ex
  have "McubootFileKnown (Some ''mcuboot.hex'')
       \<in> set (fst (snd (parseOneFile ?env ''mcuboot.hex'' ?st [])))"
    by blast
  with h1 h2 ex show ?thesis by blast
qed

end
